theory Spec2Isabelle
  imports Main "HOL-Library.Sublist"
begin

section \<open>Modbus configuration validators\<close>

text \<open>
  A shallow embedding of \<^verbatim>\<open>homeassistant/components/modbus/validators.py\<close>.
  Python dictionaries with a fixed set of optional keys are records of options, a raised
  exception is the left summand of the result, and the loops are recursive functions over
  the lists they walk. Constants imported from \<^verbatim>\<open>const.py\<close> and functions of the
  Python runtime are not part of the file; they are parameters of the functions that use
  them, or are modelled in a subsection of their own.
\<close>

subsection \<open>Exceptions\<close>

text \<open>
  The text of a \<^verbatim>\<open>vol.Invalid\<close> is kept as a constructor that carries the values the
  source formats into the message: the name of the register, the parameter or the swap
  value, the data type, the sizes. The data types and the three checked parameters come
  first, since the messages name them.
\<close>

datatype DataType =
  INT16 | UINT16 | FLOAT16 | INT32 | UINT32 | FLOAT32 | INT64 | UINT64 | FLOAT64
  | STRING | CUSTOM

datatype parm = Parm_count | Parm_structure | Parm_slave_count

datatype message =
    Missing string parm DataType
  | Illegal string parm DataType
  | Swap_illegal string string DataType
  | Structure_format string string
  | Structure_size string nat int int
  | Invalid_number string

text \<open>
  What \<^verbatim>\<open>struct.calcsize\<close> can raise: \<^verbatim>\<open>struct.error\<close> with its text, or an exception of
  another class, kept by the name of the class.
\<close>

datatype calcsize_exn = struct_error string | other_error string

datatype exn =
    vol_Invalid message
  | KeyError string
  | TypeError
  | Propagated string

subsection \<open>The type layout table\<close>

datatype legality = ILLEGAL | OPTIONAL | DEMANDED

record PARM_IS_LEGAL =
  parm_count :: legality
  parm_structure :: legality
  parm_slave_count :: legality
  parm_swap_byte :: legality
  parm_swap_word :: legality

record ENTRY =
  struct_id :: string
  register_count :: int
  validate_parm :: PARM_IS_LEGAL

definition mk_PARM_IS_LEGAL ::
  "legality \<Rightarrow> legality \<Rightarrow> legality \<Rightarrow> legality \<Rightarrow> legality \<Rightarrow> PARM_IS_LEGAL" where
  "mk_PARM_IS_LEGAL c s sc sb sw =
     \<lparr>parm_count = c, parm_structure = s, parm_slave_count = sc,
      parm_swap_byte = sb, parm_swap_word = sw\<rparr>"

definition mk_ENTRY :: "string \<Rightarrow> int \<Rightarrow> PARM_IS_LEGAL \<Rightarrow> ENTRY" where
  "mk_ENTRY i n p = \<lparr>struct_id = i, register_count = n, validate_parm = p\<rparr>"

fun DEFAULT_STRUCT_FORMAT :: "DataType \<Rightarrow> ENTRY" where
  "DEFAULT_STRUCT_FORMAT INT16 =
     mk_ENTRY ''h'' 1 (mk_PARM_IS_LEGAL ILLEGAL ILLEGAL OPTIONAL OPTIONAL ILLEGAL)"
| "DEFAULT_STRUCT_FORMAT UINT16 =
     mk_ENTRY ''H'' 1 (mk_PARM_IS_LEGAL ILLEGAL ILLEGAL OPTIONAL OPTIONAL ILLEGAL)"
| "DEFAULT_STRUCT_FORMAT FLOAT16 =
     mk_ENTRY ''e'' 1 (mk_PARM_IS_LEGAL ILLEGAL ILLEGAL OPTIONAL OPTIONAL ILLEGAL)"
| "DEFAULT_STRUCT_FORMAT INT32 =
     mk_ENTRY ''i'' 2 (mk_PARM_IS_LEGAL ILLEGAL ILLEGAL OPTIONAL OPTIONAL OPTIONAL)"
| "DEFAULT_STRUCT_FORMAT UINT32 =
     mk_ENTRY ''I'' 2 (mk_PARM_IS_LEGAL ILLEGAL ILLEGAL OPTIONAL OPTIONAL OPTIONAL)"
| "DEFAULT_STRUCT_FORMAT FLOAT32 =
     mk_ENTRY ''f'' 2 (mk_PARM_IS_LEGAL ILLEGAL ILLEGAL OPTIONAL OPTIONAL OPTIONAL)"
| "DEFAULT_STRUCT_FORMAT INT64 =
     mk_ENTRY ''q'' 4 (mk_PARM_IS_LEGAL ILLEGAL ILLEGAL OPTIONAL OPTIONAL OPTIONAL)"
| "DEFAULT_STRUCT_FORMAT UINT64 =
     mk_ENTRY ''Q'' 4 (mk_PARM_IS_LEGAL ILLEGAL ILLEGAL OPTIONAL OPTIONAL OPTIONAL)"
| "DEFAULT_STRUCT_FORMAT FLOAT64 =
     mk_ENTRY ''d'' 4 (mk_PARM_IS_LEGAL ILLEGAL ILLEGAL OPTIONAL OPTIONAL OPTIONAL)"
| "DEFAULT_STRUCT_FORMAT STRING =
     mk_ENTRY ''s'' 0 (mk_PARM_IS_LEGAL DEMANDED ILLEGAL ILLEGAL OPTIONAL ILLEGAL)"
| "DEFAULT_STRUCT_FORMAT CUSTOM =
     mk_ENTRY ''?'' 0 (mk_PARM_IS_LEGAL DEMANDED DEMANDED ILLEGAL ILLEGAL ILLEGAL)"

subsection \<open>Python's \<^verbatim>\<open>str\<close> of an integer\<close>

definition digit_char :: "nat \<Rightarrow> char" where
  "digit_char d = ''0123456789'' ! d"

fun str_nat :: "nat \<Rightarrow> string" where
  "str_nat n = (if n < 10 then [digit_char n] else str_nat (n div 10) @ [digit_char (n mod 10)])"

declare str_nat.simps [simp del]

definition str_int :: "int \<Rightarrow> string" where
  "str_int i = (if i < 0 then CHR ''-'' # str_nat (nat (- i)) else str_nat (nat i))"

subsection \<open>The register validator\<close>

text \<open>
  The configuration of one register. \<^verbatim>\<open>data_type\<close> is a member of the enumeration or
  the legacy string \<^verbatim>\<open>"int"\<close>. The keys read with \<^verbatim>\<open>config.get\<close> are options; an
  absent key and a key bound to \<^verbatim>\<open>None\<close> are both \<open>None\<close>.
\<close>

datatype data_type_value = Str_int | Enum DataType

record config =
  conf_name :: string
  conf_data_type :: data_type_value
  conf_count :: "int option"
  conf_structure :: "string option"
  conf_slave_count :: "int option"
  conf_virtual_count :: "int option"
  conf_swap :: "string option"

text \<open>
  The three swap constants of \<^verbatim>\<open>const.py\<close>, which is not among the source files. The
  values are those of Home Assistant; the proofs use only that they are non-empty and
  pairwise different.
\<close>

definition CONF_SWAP_BYTE :: string where "CONF_SWAP_BYTE = ''byte''"
definition CONF_SWAP_WORD :: string where "CONF_SWAP_WORD = ''word''"
definition CONF_SWAP_WORD_BYTE :: string where "CONF_SWAP_WORD_BYTE = ''word_byte''"

text \<open>
  One round of the loop over the three \<^verbatim>\<open>(value, legality, key)\<close> entries: the exception
  it raises, if any.
\<close>

definition check_entry :: "string \<Rightarrow> DataType \<Rightarrow> bool \<Rightarrow> legality \<Rightarrow> parm \<Rightarrow> exn option" where
  "check_entry name data_type is_none legal key =
     (if is_none then
        (if legal = DEMANDED then Some (vol_Invalid (Missing name key data_type)) else None)
      else if legal = ILLEGAL then Some (vol_Invalid (Illegal name key data_type))
      else None)"

fun check_entries :: "string \<Rightarrow> DataType \<Rightarrow> (bool \<times> legality \<times> parm) list \<Rightarrow> exn option" where
  "check_entries name data_type [] = None"
| "check_entries name data_type ((is_none, legal, key) # entries) =
     (case check_entry name data_type is_none legal key of
        Some e \<Rightarrow> Some e
      | None \<Rightarrow> check_entries name data_type entries)"

text \<open>The dictionary of the swap check; a key that is not in it raises \<^verbatim>\<open>KeyError\<close>.\<close>

definition swap_type_validator :: "PARM_IS_LEGAL \<Rightarrow> string \<Rightarrow> exn + legality" where
  "swap_type_validator validator swap_type =
     (if swap_type = CONF_SWAP_BYTE then Inr (parm_swap_byte validator)
      else if swap_type = CONF_SWAP_WORD then Inr (parm_swap_word validator)
      else if swap_type = CONF_SWAP_WORD_BYTE then Inr (parm_swap_word validator)
      else Inl (KeyError swap_type))"

definition check_swap :: "string \<Rightarrow> DataType \<Rightarrow> PARM_IS_LEGAL \<Rightarrow> string option \<Rightarrow> exn option" where
  "check_swap name data_type validator swap_type =
     (case swap_type of
        None \<Rightarrow> None
      | Some s \<Rightarrow>
          if s = [] then None
          else (case swap_type_validator validator s of
                  Inl e \<Rightarrow> Some e
                | Inr legal \<Rightarrow>
                    if legal = ILLEGAL then Some (vol_Invalid (Swap_illegal name s data_type))
                    else None))"

text \<open>
  \<^verbatim>\<open>struct.calcsize\<close> belongs to the Python library; it is the parameter \<open>calcsize\<close>,
  which returns the size or the exception raised. Only \<^verbatim>\<open>struct.error\<close> is caught; any
  other exception leaves the validator as it is. \<^verbatim>\<open>calcsize(None)\<close> and \<^verbatim>\<open>None * 2\<close>
  raise \<^verbatim>\<open>TypeError\<close>.
\<close>

definition resolve_data_type :: "data_type_value \<Rightarrow> DataType" where
  "resolve_data_type v = (case v of Str_int \<Rightarrow> INT16 | Enum d \<Rightarrow> d)"

definition resolve_slave_count :: "config \<Rightarrow> int option" where
  "resolve_slave_count config =
     (case conf_slave_count config of Some v \<Rightarrow> Some v | None \<Rightarrow> conf_virtual_count config)"

definition custom_structure ::
  "(string \<Rightarrow> calcsize_exn + nat) \<Rightarrow> string \<Rightarrow> int option \<Rightarrow> string option
     \<Rightarrow> exn option" where
  "custom_structure calcsize name count structure =
     (case structure of
        None \<Rightarrow> Some TypeError
      | Some s \<Rightarrow>
          (case calcsize s of
             Inl (struct_error err) \<Rightarrow> Some (vol_Invalid (Structure_format name err))
           | Inl (other_error cls) \<Rightarrow> Some (Propagated cls)
           | Inr sz \<Rightarrow>
               (case count of
                  None \<Rightarrow> Some TypeError
                | Some c \<Rightarrow>
                    if c * 2 \<noteq> int sz
                    then Some (vol_Invalid (Structure_size name sz c (c * 2)))
                    else None)))"

definition default_structure :: "DataType \<Rightarrow> int option \<Rightarrow> string" where
  "default_structure data_type slave_count =
     (case slave_count of
        None \<Rightarrow> ''>'' @ struct_id (DEFAULT_STRUCT_FORMAT data_type)
      | Some n \<Rightarrow>
          if n \<noteq> 0 then ''>'' @ str_int (n + 1) @ struct_id (DEFAULT_STRUCT_FORMAT data_type)
          else ''>'' @ struct_id (DEFAULT_STRUCT_FORMAT data_type))"

definition struct_validator :: "(string \<Rightarrow> calcsize_exn + nat) \<Rightarrow> config \<Rightarrow> exn + config" where
  "struct_validator calcsize config0 =
     (let name = conf_name config0;
          data_type = resolve_data_type (conf_data_type config0);
          config = config0\<lparr>conf_data_type := Enum data_type\<rparr>;
          count = conf_count config;
          structure = conf_structure config;
          slave_count = resolve_slave_count config;
          validator = validate_parm (DEFAULT_STRUCT_FORMAT data_type);
          swap_type = conf_swap config
      in case check_entries name data_type
                [(count = None, parm_count validator, Parm_count),
                 (structure = None, parm_structure validator, Parm_structure),
                 (slave_count = None, parm_slave_count validator, Parm_slave_count)] of
           Some e \<Rightarrow> Inl e
         | None \<Rightarrow>
             (case check_swap name data_type validator swap_type of
                Some e \<Rightarrow> Inl e
              | None \<Rightarrow>
                  if data_type = CUSTOM then
                    (case custom_structure calcsize name count structure of
                       Some e \<Rightarrow> Inl e
                     | None \<Rightarrow> Inr (config\<lparr>conf_structure := structure, conf_swap := swap_type\<rparr>))
                  else
                    (let config' =
                           (if data_type \<noteq> STRING
                            then config\<lparr>conf_count :=
                                   Some (register_count (DEFAULT_STRUCT_FORMAT data_type))\<rparr>
                            else config)
                     in Inr (config'\<lparr>conf_structure := Some (default_structure data_type slave_count),
                                     conf_swap := swap_type\<rparr>))))"

subsection \<open>A model of \<^verbatim>\<open>struct.calcsize\<close>\<close>

text \<open>
  The size computation of CPython's \<^verbatim>\<open>_struct\<close> module (\<^verbatim>\<open>prepare_s\<close>), for a format
  given as a string of ASCII characters. The standard tables (\<^verbatim>\<open><\<close>, \<^verbatim>\<open>>\<close>, \<^verbatim>\<open>!\<close>,
  \<^verbatim>\<open>=\<close>) have fixed sizes and no alignment; the native table has the sizes and
  alignments of a 64-bit Linux. An entry is the pair of the item size and its alignment.
\<close>

definition PY_SSIZE_T_MAX :: nat where
  "PY_SSIZE_T_MAX = 2 ^ 63 - 1"

definition is_space :: "char \<Rightarrow> bool" where
  "is_space c = (c \<in> set [CHR '' '', CHR 0x09, CHR 0x0A, CHR 0x0B, CHR 0x0C, CHR 0x0D])"

definition is_digit :: "char \<Rightarrow> bool" where
  "is_digit c = (48 \<le> (of_char c :: nat) \<and> (of_char c :: nat) \<le> 57)"

definition digit_val :: "char \<Rightarrow> nat" where
  "digit_val c = of_char c - 48"

datatype table = native_table | standard_table

definition whichtable :: "string \<Rightarrow> table \<times> string" where
  "whichtable fmt =
     (case fmt of
        [] \<Rightarrow> (native_table, [])
      | c # s \<Rightarrow>
          if c \<in> set ''<>!='' then (standard_table, s)
          else if c = CHR ''@'' then (native_table, s)
          else (native_table, fmt))"

definition getentry :: "table \<Rightarrow> char \<Rightarrow> (nat \<times> nat) option" where
  "getentry f c =
     (case f of
        standard_table \<Rightarrow>
          map_of
            [(CHR ''x'', (1, 0)), (CHR ''b'', (1, 0)), (CHR ''B'', (1, 0)), (CHR ''c'', (1, 0)),
             (CHR ''s'', (1, 0)), (CHR ''p'', (1, 0)), (CHR ''h'', (2, 0)), (CHR ''H'', (2, 0)),
             (CHR ''i'', (4, 0)), (CHR ''I'', (4, 0)), (CHR ''l'', (4, 0)), (CHR ''L'', (4, 0)),
             (CHR ''q'', (8, 0)), (CHR ''Q'', (8, 0)), (CHR ''?'', (1, 0)), (CHR ''e'', (2, 0)),
             (CHR ''f'', (4, 0)), (CHR ''d'', (8, 0))] c
      | native_table \<Rightarrow>
          map_of
            [(CHR ''x'', (1, 0)), (CHR ''b'', (1, 0)), (CHR ''B'', (1, 0)), (CHR ''c'', (1, 0)),
             (CHR ''s'', (1, 0)), (CHR ''p'', (1, 0)), (CHR ''h'', (2, 2)), (CHR ''H'', (2, 2)),
             (CHR ''i'', (4, 4)), (CHR ''I'', (4, 4)), (CHR ''l'', (8, 8)), (CHR ''L'', (8, 8)),
             (CHR ''n'', (8, 8)), (CHR ''N'', (8, 8)), (CHR ''q'', (8, 8)), (CHR ''Q'', (8, 8)),
             (CHR ''?'', (1, 1)), (CHR ''e'', (2, 2)), (CHR ''f'', (4, 4)), (CHR ''d'', (8, 8)),
             (CHR ''P'', (8, 8))] c)"

definition overflow :: "calcsize_exn + nat" where
  "overflow = Inl (struct_error ''total struct size too long'')"

text \<open>The digits of a repeat count; \<open>None\<close> when the count exceeds \<open>PY_SSIZE_T_MAX\<close>.\<close>

fun read_count :: "nat \<Rightarrow> string \<Rightarrow> nat option \<times> string" where
  "read_count num [] = (Some num, [])"
| "read_count num (c # s) =
     (if is_digit c then
        (if num * 10 + digit_val c > PY_SSIZE_T_MAX then (None, s)
         else read_count (num * 10 + digit_val c) s)
      else (Some num, c # s))"

definition align :: "nat \<Rightarrow> nat \<Rightarrow> nat option" where
  "align sz alignment =
     (if alignment \<noteq> 0 \<and> sz > 0 then
        (let extra = (alignment - 1) - (sz - 1) mod alignment
         in if extra > PY_SSIZE_T_MAX - sz then None else Some (sz + extra))
      else Some sz)"

definition add_item :: "table \<Rightarrow> char \<Rightarrow> nat \<Rightarrow> nat \<Rightarrow> calcsize_exn + nat" where
  "add_item f c num sz =
     (case getentry f c of
        None \<Rightarrow> Inl (struct_error ''bad char in struct format'')
      | Some (itemsize, alignment) \<Rightarrow>
          (case align sz alignment of
             None \<Rightarrow> overflow
           | Some sz' \<Rightarrow>
               if num > (PY_SSIZE_T_MAX - sz') div itemsize then overflow
               else Inr (sz' + num * itemsize)))"

lemma read_count_length: "length (snd (read_count num s)) \<le> length s"
  by (induction s arbitrary: num) (auto intro: le_SucI)

lemma read_count_rest:
  assumes "(Some num, c' # s') = read_count n s"
  shows "length s' < Suc (length s)"
proof -
  have "c' # s' = snd (read_count n s)"
    using assms by (metis snd_conv)
  then have "length (c' # s') \<le> length s"
    by (simp add: read_count_length)
  then show ?thesis by simp
qed

function prepare_s :: "table \<Rightarrow> string \<Rightarrow> nat \<Rightarrow> calcsize_exn + nat" where
  "prepare_s f [] sz = Inr sz"
| "prepare_s f (c # s) sz =
     (if is_space c then prepare_s f s sz
      else if is_digit c then
        (case read_count (digit_val c) s of
           (None, _) \<Rightarrow> overflow
         | (Some num, []) \<Rightarrow>
             Inl (struct_error ''repeat count given without format specifier'')
         | (Some num, c' # s') \<Rightarrow>
             (case add_item f c' num sz of
                Inl e \<Rightarrow> Inl e
              | Inr sz' \<Rightarrow> prepare_s f s' sz'))
      else
        (case add_item f c 1 sz of
           Inl e \<Rightarrow> Inl e
         | Inr sz' \<Rightarrow> prepare_s f s sz'))"
  by pat_completeness auto

termination
  by (relation "measure (\<lambda>(f, s, sz). length s)") (auto intro: read_count_rest)

text \<open>
  A character outside ASCII cannot be encoded, which raises \<^verbatim>\<open>UnicodeEncodeError\<close> and not
  \<^verbatim>\<open>struct.error\<close>; a NUL character in the format is a \<^verbatim>\<open>struct.error\<close>.
\<close>

definition calcsize :: "string \<Rightarrow> calcsize_exn + nat" where
  "calcsize fmt =
     (if \<exists>c \<in> set fmt. (of_char c :: nat) \<ge> 128 then Inl (other_error ''UnicodeEncodeError'')
      else if CHR 0x00 \<in> set fmt then Inl (struct_error ''embedded null character'')
      else (case whichtable fmt of (f, s) \<Rightarrow> prepare_s f s 0))"

subsection \<open>The specification's view of a register declaration\<close>

text \<open>
  The definitions of this subsection follow the words of the specification, not the code:
  the word count and the format tag of a data type, and what it means for a declaration
  to violate the legality matrix.
\<close>

fun wordCount :: "DataType \<Rightarrow> int" where
  "wordCount INT16 = 1" | "wordCount UINT16 = 1" | "wordCount FLOAT16 = 1"
| "wordCount INT32 = 2" | "wordCount UINT32 = 2" | "wordCount FLOAT32 = 2"
| "wordCount INT64 = 4" | "wordCount UINT64 = 4" | "wordCount FLOAT64 = 4"
| "wordCount STRING = 0" | "wordCount CUSTOM = 0"

fun formatTag :: "DataType \<Rightarrow> string" where
  "formatTag INT16 = ''h''" | "formatTag UINT16 = ''H''" | "formatTag FLOAT16 = ''e''"
| "formatTag INT32 = ''i''" | "formatTag UINT32 = ''I''" | "formatTag FLOAT32 = ''f''"
| "formatTag INT64 = ''q''" | "formatTag UINT64 = ''Q''" | "formatTag FLOAT64 = ''d''"
| "formatTag STRING = ''s''" | "formatTag CUSTOM = ''?''"

definition dataType :: "config \<Rightarrow> DataType" where
  "dataType config = resolve_data_type (conf_data_type config)"

definition legalityOf :: "config \<Rightarrow> PARM_IS_LEGAL" where
  "legalityOf config = validate_parm (DEFAULT_STRUCT_FORMAT (dataType config))"

definition slaveCount :: "config \<Rightarrow> int option" where
  "slaveCount config = resolve_slave_count config"

text \<open>A field violates its legality when it is absent and demanded, or present and illegal.\<close>

definition field_violation :: "bool \<Rightarrow> legality \<Rightarrow> bool" where
  "field_violation present legal =
     ((\<not> present \<and> legal = DEMANDED) \<or> (present \<and> legal = ILLEGAL))"

definition fields_violated :: "config \<Rightarrow> bool" where
  "fields_violated config =
     (field_violation (conf_count config \<noteq> None) (parm_count (legalityOf config))
      \<or> field_violation (conf_structure config \<noteq> None) (parm_structure (legalityOf config))
      \<or> field_violation (slaveCount config \<noteq> None) (parm_slave_count (legalityOf config)))"

text \<open>
  A present swap mode violates the matrix when its column is ILLEGAL: the byte column for
  BYTE, the word column for WORD and for WORD_AND_BYTE.
\<close>

definition swap_violated :: "config \<Rightarrow> bool" where
  "swap_violated config =
     ((conf_swap config = Some CONF_SWAP_BYTE \<and> parm_swap_byte (legalityOf config) = ILLEGAL)
      \<or> ((conf_swap config = Some CONF_SWAP_WORD \<or> conf_swap config = Some CONF_SWAP_WORD_BYTE)
          \<and> parm_swap_word (legalityOf config) = ILLEGAL))"

definition legality_violated :: "config \<Rightarrow> bool" where
  "legality_violated config = (fields_violated config \<or> swap_violated config)"

text \<open>The kinds of exception a result can be.\<close>

definition is_config_error :: "exn + 'a \<Rightarrow> bool" where
  "is_config_error r = (case r of Inl (vol_Invalid m) \<Rightarrow> True | _ \<Rightarrow> False)"

definition is_legality_error :: "exn + 'a \<Rightarrow> bool" where
  "is_legality_error r =
     (case r of
        Inl (vol_Invalid (Missing n k d)) \<Rightarrow> True
      | Inl (vol_Invalid (Illegal n k d)) \<Rightarrow> True
      | Inl (vol_Invalid (Swap_illegal n s d)) \<Rightarrow> True
      | _ \<Rightarrow> False)"

definition succeeds :: "exn + 'a \<Rightarrow> bool" where
  "succeeds r = (case r of Inr v \<Rightarrow> True | Inl e \<Rightarrow> False)"

text \<open>
  The legality checks of the code, taken together: the exception of the loop over the three
  fields, else the exception of the swap check.
\<close>

definition legality_checks :: "config \<Rightarrow> exn option" where
  "legality_checks config =
     (let name = conf_name config;
          data_type = resolve_data_type (conf_data_type config);
          validator = validate_parm (DEFAULT_STRUCT_FORMAT data_type)
      in case check_entries name data_type
                [(conf_count config = None, parm_count validator, Parm_count),
                 (conf_structure config = None, parm_structure validator, Parm_structure),
                 (resolve_slave_count config = None, parm_slave_count validator,
                  Parm_slave_count)] of
           Some e \<Rightarrow> Some e
         | None \<Rightarrow> check_swap name data_type validator (conf_swap config))"

text \<open>A declaration with the given optional fields, named \<open>''reg''\<close>.\<close>

definition decl ::
  "DataType \<Rightarrow> int option \<Rightarrow> string option \<Rightarrow> int option \<Rightarrow> string option \<Rightarrow> config" where
  "decl d c s sc sw =
     \<lparr>conf_name = ''reg'', conf_data_type = Enum d, conf_count = c, conf_structure = s,
      conf_slave_count = sc, conf_virtual_count = None, conf_swap = sw\<rparr>"

text \<open>A field of the declaration a validation returns; \<open>None\<close> when it raised.\<close>

definition returned :: "(config \<Rightarrow> 'a) \<Rightarrow> exn + config \<Rightarrow> 'a option" where
  "returned field r = (case r of Inr out \<Rightarrow> Some (field out) | Inl e \<Rightarrow> None)"

section \<open>The numeric coercers\<close>

text \<open>
  The value a coercer receives: an integer, a float or a string. Floats are values of a type
  \<open>'f\<close> that is left open; nothing is computed with them. The conversions \<^verbatim>\<open>int(value)\<close>,
  \<^verbatim>\<open>int(value, 16)\<close> and \<^verbatim>\<open>float(value)\<close> of a string belong to the Python runtime and are
  parameters: they return \<open>None\<close> where Python raises \<^verbatim>\<open>ValueError\<close>.
\<close>

datatype 'f raw = Raw_int int | Raw_float 'f | Raw_str string

datatype 'f number = PyInt int | PyFloat 'f

definition number_validator ::
  "(string \<Rightarrow> int option) \<Rightarrow> (string \<Rightarrow> 'f option) \<Rightarrow> 'f raw \<Rightarrow> exn + 'f number" where
  "number_validator int_of float_of v =
     (case v of
        Raw_int i \<Rightarrow> Inr (PyInt i)
      | Raw_float f \<Rightarrow> Inr (PyFloat f)
      | Raw_str s \<Rightarrow>
          (case int_of s of
             Some i \<Rightarrow> Inr (PyInt i)
           | None \<Rightarrow>
               (case float_of s of
                  Some f \<Rightarrow> Inr (PyFloat f)
                | None \<Rightarrow> Inl (vol_Invalid (Invalid_number s)))))"

text \<open>
  The value of \<^verbatim>\<open>nan_validator\<close> is, by its docstring, a hex string or an int.
\<close>

datatype nan_value = Nan_int int | Nan_str string

definition nan_validator ::
  "(string \<Rightarrow> int option) \<Rightarrow> (string \<Rightarrow> int option) \<Rightarrow> nan_value \<Rightarrow> exn + int" where
  "nan_validator int_of int16_of v =
     (case v of
        Nan_int i \<Rightarrow> Inr i
      | Nan_str s \<Rightarrow>
          (case int_of s of
             Some i \<Rightarrow> Inr i
           | None \<Rightarrow>
               (case int16_of s of
                  Some i \<Rightarrow> Inr i
                | None \<Rightarrow> Inl (vol_Invalid (Invalid_number s)))))"

subsection \<open>A model of Python's conversions of a string\<close>

text \<open>
  \<^verbatim>\<open>int(s, base)\<close> for a string of ASCII characters, as CPython's \<^verbatim>\<open>PyLong_FromString\<close>
  reads it: surrounding whitespace, a sign, for base 16 the prefix \<^verbatim>\<open>0x\<close>, then digits
  with single underscores between them. A decimal string of more than 4300 digits is
  refused.
\<close>

definition is_uspace :: "char \<Rightarrow> bool" where
  "is_uspace c =
     (c \<in> set [CHR '' '', CHR 0x09, CHR 0x0A, CHR 0x0B, CHR 0x0C, CHR 0x0D])"

definition strip :: "string \<Rightarrow> string" where
  "strip s = rev (dropWhile is_uspace (rev (dropWhile is_uspace s)))"

definition digit_value :: "nat \<Rightarrow> char \<Rightarrow> nat option" where
  "digit_value base c =
     (let n = (of_char c :: nat);
          v = (if 48 \<le> n \<and> n \<le> 57 then Some (n - 48)
               else if 97 \<le> n \<and> n \<le> 122 then Some (n - 87)
               else if 65 \<le> n \<and> n \<le> 90 then Some (n - 55)
               else None)
      in case v of None \<Rightarrow> None | Some d \<Rightarrow> if d < base then Some d else None)"

text \<open>
  The digits after the sign and the prefix: the value read and the number of digits, or
  \<open>None\<close> for a character that is no digit, two underscores in a row or an underscore at
  the end. \<open>prev\<close> is the character before.
\<close>

fun scan_digits :: "nat \<Rightarrow> char \<Rightarrow> string \<Rightarrow> nat \<Rightarrow> nat \<Rightarrow> (nat \<times> nat) option" where
  "scan_digits base prev [] acc n = (if prev = CHR ''_'' then None else Some (acc, n))"
| "scan_digits base prev (c # s) acc n =
     (if c = CHR ''_'' then
        (if prev = CHR ''_'' then None else scan_digits base c s acc n)
      else
        (case digit_value base c of
           None \<Rightarrow> None
         | Some d \<Rightarrow> scan_digits base c s (acc * base + d) (Suc n)))"

definition split_sign :: "string \<Rightarrow> int \<times> string" where
  "split_sign s =
     (case s of
        [] \<Rightarrow> (1, [])
      | c # r \<Rightarrow> if c = CHR ''+'' then (1, r) else if c = CHR ''-'' then (- 1, r) else (1, s))"

definition skip_prefix :: "nat \<Rightarrow> string \<Rightarrow> string" where
  "skip_prefix base s =
     (case s of
        c # x # r \<Rightarrow>
          if base = 16 \<and> c = CHR ''0'' \<and> (x = CHR ''x'' \<or> x = CHR ''X'')
          then (case r of u # r' \<Rightarrow> if u = CHR ''_'' then r' else r | [] \<Rightarrow> r)
          else s
      | _ \<Rightarrow> s)"

definition int_str :: "nat \<Rightarrow> string \<Rightarrow> int option" where
  "int_str base s =
     (case split_sign (strip s) of
        (sign, t) \<Rightarrow>
          (case skip_prefix base t of
             [] \<Rightarrow> None
           | c # r \<Rightarrow>
               if c = CHR ''_'' then None
               else (case scan_digits base (CHR 0x00) (c # r) 0 0 of
                       None \<Rightarrow> None
                     | Some (v, n) \<Rightarrow>
                         if n = 0 \<or> (base = 10 \<and> n > 4300) then None
                         else Some (sign * int v))))"

text \<open>
  \<^verbatim>\<open>float(s)\<close> accepts, between whitespace, a sign followed by \<^verbatim>\<open>inf\<close>, \<^verbatim>\<open>infinity\<close> or
  \<^verbatim>\<open>nan\<close> in any case, or by a decimal literal with an optional exponent; underscores may
  stand between digits. The float it denotes is given by \<open>float_val\<close>, which is left open.
\<close>

fun drop_underscores :: "char \<Rightarrow> string \<Rightarrow> string option" where
  "drop_underscores prev [] = (if prev = CHR ''_'' then None else Some [])"
| "drop_underscores prev (c # s) =
     (if c = CHR ''_'' then
        (if is_digit prev then drop_underscores c s else None)
      else if prev = CHR ''_'' \<and> \<not> is_digit c then None
      else map_option ((#) c) (drop_underscores c s))"

definition lower :: "char \<Rightarrow> char" where
  "lower c =
     (case map_of (zip ''ABCDEFGHIJKLMNOPQRSTUVWXYZ'' ''abcdefghijklmnopqrstuvwxyz'') c of
        Some l \<Rightarrow> l
      | None \<Rightarrow> c)"

definition is_exponent :: "string \<Rightarrow> bool" where
  "is_exponent s =
     (case s of
        [] \<Rightarrow> True
      | c # r \<Rightarrow>
          (c = CHR ''e'' \<or> c = CHR ''E'')
          \<and> (let d = snd (split_sign r) in d \<noteq> [] \<and> list_all is_digit d))"

definition is_decimal :: "string \<Rightarrow> bool" where
  "is_decimal s =
     (let whole = takeWhile is_digit s; r = dropWhile is_digit s
      in case r of
           c # r' \<Rightarrow>
             if c = CHR ''.'' then
               (whole \<noteq> [] \<or> takeWhile is_digit r' \<noteq> []) \<and> is_exponent (dropWhile is_digit r')
             else whole \<noteq> [] \<and> is_exponent r
         | [] \<Rightarrow> whole \<noteq> [])"

definition float_literal :: "string \<Rightarrow> bool" where
  "float_literal s =
     (case drop_underscores (CHR 0x00) (strip s) of
        None \<Rightarrow> False
      | Some t \<Rightarrow>
          (let u = snd (split_sign t)
           in map lower u \<in> set [''inf'', ''infinity'', ''nan''] \<or> is_decimal u))"

definition float_str :: "(string \<Rightarrow> 'f) \<Rightarrow> string \<Rightarrow> 'f option" where
  "float_str float_val s = (if float_literal s then Some (float_val s) else None)"

section \<open>Hubs and their entities\<close>

text \<open>
  A hub is a dictionary with a name, a connection type, host and port, a timeout, and under
  the configuration key of each platform the list of its entities; an entity is a dictionary
  of which the validators read the keys below. A key read with \<^verbatim>\<open>in\<close> or \<^verbatim>\<open>get\<close> is an
  option. Host and port are strings, as \<^verbatim>\<open>str\<close> renders them; scan intervals and the
  timeout are whole seconds. For a nested mode register only its address is kept.
\<close>

record entry =
  entry_name :: string
  entry_address :: int
  entry_input_type :: "string option"
  entry_write_type :: "string option"
  entry_command_on :: "int option"
  entry_command_off :: "int option"
  entry_slave :: "int option"
  entry_device_address :: "int option"
  entry_target_temp :: "int option"
  entry_hvac_mode_register :: "int option"
  entry_fan_mode_register :: "int option"
  entry_scan_interval :: "int option"

datatype connection_type = SERIAL | NETWORK

record hub =
  hub_name :: "string option"
  hub_type :: connection_type
  hub_host :: string
  hub_port :: string
  hub_timeout :: "int option"
  hub_platforms :: "string \<Rightarrow> entry list option"

text \<open>What is passed to \<^verbatim>\<open>_LOGGER.warning\<close>, with the values formatted into the text.\<close>

datatype warning =
    Low_scan_interval string string int
  | Timeout_adjusted string int int
  | Duplicate_address string string "string set"
  | Duplicate_entity_name string string
  | Duplicate_host string string
  | Duplicate_hub_name string
  | Duplicate_fan_mode string int

text \<open>
  \<^verbatim>\<open>del xs[i]\<close>, and the loop \<^verbatim>\<open>for i in reversed(errors): del xs[i]\<close> as \<open>del_indices\<close> of the
  reversed list. Python raises \<^verbatim>\<open>IndexError\<close> for an index out of range; the indices
  deleted here were collected while enumerating the same list, largest first, and are in
  range (\<open>rejected_in_range\<close> below).
\<close>

definition del_at :: "nat \<Rightarrow> 'a list \<Rightarrow> 'a list" where
  "del_at i xs = take i xs @ drop (Suc i) xs"

fun del_indices :: "nat list \<Rightarrow> 'a list \<Rightarrow> 'a list" where
  "del_indices [] xs = xs"
| "del_indices (i # is) xs = del_indices is (del_at i xs)"

subsection \<open>The timing normalizer\<close>

text \<open>
  \<^verbatim>\<open>DEFAULT_SCAN_INTERVAL\<close> and \<^verbatim>\<open>PLATFORMS\<close>, the list of pairs of a component and its
  configuration key, come from \<^verbatim>\<open>const.py\<close> and are parameters. The loops pass the minimum
  and the warnings along.
\<close>

fun scan_entries ::
  "int \<Rightarrow> string \<Rightarrow> entry list \<Rightarrow> int \<times> warning list \<Rightarrow> entry list \<times> int \<times> warning list" where
  "scan_entries DEFAULT_SCAN_INTERVAL component [] (minimum, log) = ([], minimum, log)"
| "scan_entries DEFAULT_SCAN_INTERVAL component (entry # entries) (minimum, log) =
     (let scan_interval =
            (case entry_scan_interval entry of None \<Rightarrow> DEFAULT_SCAN_INTERVAL | Some v \<Rightarrow> v)
      in if scan_interval = 0 then
           (case scan_entries DEFAULT_SCAN_INTERVAL component entries (minimum, log) of
              (entries', r) \<Rightarrow> (entry # entries', r))
         else
           (case scan_entries DEFAULT_SCAN_INTERVAL component entries
                   (min scan_interval minimum,
                    if scan_interval < 5
                    then log @ [Low_scan_interval component (entry_name entry) scan_interval]
                    else log) of
              (entries', r) \<Rightarrow> (entry\<lparr>entry_scan_interval := Some scan_interval\<rparr> # entries', r)))"

fun scan_platforms ::
  "int \<Rightarrow> (string \<times> string) list \<Rightarrow> hub \<Rightarrow> int \<times> warning list \<Rightarrow> hub \<times> int \<times> warning list" where
  "scan_platforms DEFAULT_SCAN_INTERVAL [] hub (minimum, log) = (hub, minimum, log)"
| "scan_platforms DEFAULT_SCAN_INTERVAL ((component, conf_key) # platforms) hub (minimum, log) =
     (case hub_platforms hub conf_key of
        None \<Rightarrow> scan_platforms DEFAULT_SCAN_INTERVAL platforms hub (minimum, log)
      | Some entries \<Rightarrow>
          (case scan_entries DEFAULT_SCAN_INTERVAL component entries (minimum, log) of
             (entries', r) \<Rightarrow>
               scan_platforms DEFAULT_SCAN_INTERVAL platforms
                 (hub\<lparr>hub_platforms := (hub_platforms hub)(conf_key \<mapsto> entries')\<rparr>) r))"

definition scan_hub :: "int \<Rightarrow> (string \<times> string) list \<Rightarrow> hub \<Rightarrow> hub \<times> warning list" where
  "scan_hub DEFAULT_SCAN_INTERVAL PLATFORMS hub0 =
     (case scan_platforms DEFAULT_SCAN_INTERVAL PLATFORMS hub0 (DEFAULT_SCAN_INTERVAL, []) of
        (hub, minimum_scan_interval, log) \<Rightarrow>
          (case hub_timeout hub of
             None \<Rightarrow> (hub, log)
           | Some timeout \<Rightarrow>
               if timeout > minimum_scan_interval - 1 \<and> minimum_scan_interval > 1 then
                 (hub\<lparr>hub_timeout := Some (minimum_scan_interval - 1)\<rparr>,
                  log @ [Timeout_adjusted (case hub_name hub of None \<Rightarrow> [] | Some n \<Rightarrow> n)
                           timeout (minimum_scan_interval - 1)])
               else (hub, log)))"

definition scan_interval_validator ::
  "int \<Rightarrow> (string \<times> string) list \<Rightarrow> hub list \<Rightarrow> hub list \<times> warning list" where
  "scan_interval_validator DEFAULT_SCAN_INTERVAL PLATFORMS config =
     (let results = map (scan_hub DEFAULT_SCAN_INTERVAL PLATFORMS) config
      in (map fst results, concat (map snd results)))"

subsection \<open>The duplicate resolver for entities\<close>

definition inx :: "entry \<Rightarrow> int" where
  "inx entry =
     (case entry_slave entry of
        Some v \<Rightarrow>
          if v \<noteq> 0 then v
          else (case entry_device_address entry of None \<Rightarrow> 0 | Some d \<Rightarrow> d)
      | None \<Rightarrow> (case entry_device_address entry of None \<Rightarrow> 0 | Some d \<Rightarrow> d))"

definition addr :: "entry \<Rightarrow> string" where
  "addr entry =
     str_int (entry_address entry)
     @ (case entry_input_type entry of
          Some t \<Rightarrow> ''_'' @ t
        | None \<Rightarrow> (case entry_write_type entry of Some t \<Rightarrow> ''_'' @ t | None \<Rightarrow> []))
     @ (case entry_command_on entry of Some c \<Rightarrow> ''_'' @ str_int c | None \<Rightarrow> [])
     @ (case entry_command_off entry of Some c \<Rightarrow> ''_'' @ str_int c | None \<Rightarrow> [])
     @ ''_'' @ str_int (inx entry)"

definition sub_addr :: "entry \<Rightarrow> int option \<Rightarrow> string set" where
  "sub_addr entry register =
     (case register of None \<Rightarrow> {} | Some a \<Rightarrow> {str_int a @ ''_'' @ str_int (inx entry)})"

definition entry_addrs :: "entry \<Rightarrow> string set" where
  "entry_addrs entry =
     {addr entry}
     \<union> sub_addr entry (entry_target_temp entry)
     \<union> sub_addr entry (entry_hvac_mode_register entry)
     \<union> sub_addr entry (entry_fan_mode_register entry)"

text \<open>
  The loop over the enumerated entities of one platform. The state is the triple of the
  names seen, the indices to delete and the addresses seen, and the warnings logged.
\<close>

fun entity_loop ::
  "string \<Rightarrow> entry list \<Rightarrow> nat \<Rightarrow> (string set \<times> nat list \<times> string set) \<times> warning list
     \<Rightarrow> (string set \<times> nat list \<times> string set) \<times> warning list" where
  "entity_loop component [] index st = st"
| "entity_loop component (entry # entries) index ((names, errors, addresses), log) =
     (let name = entry_name entry;
          dup_addrs = entry_addrs entry \<inter> addresses
      in entity_loop component entries (Suc index)
           (if dup_addrs \<noteq> {} then
              ((names, errors @ [index], addresses),
               log @ [Duplicate_address component name dup_addrs])
            else if name \<in> names then
              ((names, errors @ [index], addresses),
               log @ [Duplicate_entity_name component name])
            else ((insert name names, errors, addresses \<union> entry_addrs entry), log)))"

definition dedupe_platform :: "string \<Rightarrow> entry list \<Rightarrow> entry list \<times> warning list" where
  "dedupe_platform component entries =
     (case entity_loop component entries 0 (({}, [], {}), []) of
        ((names, errors, addresses), log) \<Rightarrow> (del_indices (rev errors) entries, log))"

fun dedupe_platforms ::
  "(string \<times> string) list \<Rightarrow> hub \<Rightarrow> warning list \<Rightarrow> hub \<times> warning list" where
  "dedupe_platforms [] hub log = (hub, log)"
| "dedupe_platforms ((component, conf_key) # platforms) hub log =
     (case hub_platforms hub conf_key of
        None \<Rightarrow> dedupe_platforms platforms hub log
      | Some entries \<Rightarrow>
          (case dedupe_platform component entries of
             (entries', log') \<Rightarrow>
               dedupe_platforms platforms
                 (hub\<lparr>hub_platforms := (hub_platforms hub)(conf_key \<mapsto> entries')\<rparr>)
                 (log @ log')))"

definition duplicate_entity_validator ::
  "(string \<times> string) list \<Rightarrow> hub list \<Rightarrow> hub list \<times> warning list" where
  "duplicate_entity_validator PLATFORMS config =
     (let results = map (\<lambda>hub. dedupe_platforms PLATFORMS hub []) config
      in (map fst results, concat (map snd results)))"

subsection \<open>The duplicate resolver for hubs\<close>

text \<open>\<^verbatim>\<open>DEFAULT_HUB\<close>, the name of a hub that has none, is a parameter.\<close>

definition host_of :: "hub \<Rightarrow> string" where
  "host_of hub =
     (if hub_type hub = SERIAL then hub_port hub else hub_host hub @ ''_'' @ hub_port hub)"

definition name_of :: "string \<Rightarrow> hub \<Rightarrow> string" where
  "name_of DEFAULT_HUB hub = (case hub_name hub of None \<Rightarrow> DEFAULT_HUB | Some n \<Rightarrow> n)"

fun hub_loop ::
  "string \<Rightarrow> hub list \<Rightarrow> nat \<Rightarrow> (string set \<times> string set \<times> nat list) \<times> warning list
     \<Rightarrow> (string set \<times> string set \<times> nat list) \<times> warning list" where
  "hub_loop DEFAULT_HUB [] index st = st"
| "hub_loop DEFAULT_HUB (hub # hubs) index ((hosts, names, errors), log) =
     (let name = name_of DEFAULT_HUB hub;
          host = host_of hub
      in hub_loop DEFAULT_HUB hubs (Suc index)
           (if host \<in> hosts then
              ((hosts, names, errors @ [index]), log @ [Duplicate_host name host])
            else if name \<in> names then
              ((hosts, names, errors @ [index]), log @ [Duplicate_hub_name name])
            else ((insert host hosts, insert name names, errors), log)))"

definition duplicate_modbus_validator :: "string \<Rightarrow> hub list \<Rightarrow> hub list \<times> warning list" where
  "duplicate_modbus_validator DEFAULT_HUB config =
     (case hub_loop DEFAULT_HUB config 0 (({}, {}, []), []) of
        ((hosts, names, errors), log) \<Rightarrow> (del_indices (rev errors) config, log))"

subsection \<open>The duplicate resolver for fan mode values\<close>

text \<open>
  The dictionary of fan mode values keeps its insertion order: a list of pairs of a label
  and its value. \<^verbatim>\<open>del d[key]\<close> removes the item of that key.
\<close>

record fan_config =
  fan_address :: int
  fan_mode_values :: "(string \<times> int) list"

definition del_key :: "string \<Rightarrow> (string \<times> int) list \<Rightarrow> (string \<times> int) list" where
  "del_key key items = filter (\<lambda>item. fst item \<noteq> key) items"

fun fan_loop ::
  "(string \<times> int) list \<Rightarrow> (int set \<times> string list) \<times> warning list
     \<Rightarrow> (int set \<times> string list) \<times> warning list" where
  "fan_loop [] st = st"
| "fan_loop ((key, v) # items) ((fan_modes, errors), log) =
     fan_loop items
       (if v \<in> fan_modes then ((fan_modes, errors @ [key]), log @ [Duplicate_fan_mode key v])
        else ((insert v fan_modes, errors), log))"

definition duplicate_fan_mode_validator :: "fan_config \<Rightarrow> fan_config \<times> warning list" where
  "duplicate_fan_mode_validator config =
     (case fan_loop (fan_mode_values config) (({}, []), []) of
        ((fan_modes, errors), log) \<Rightarrow>
          (config\<lparr>fan_mode_values := fold del_key (rev errors) (fan_mode_values config)\<rparr>, log))"

text \<open>A hub on the network with the given name, host and port, and no entities.\<close>

definition tcp_hub :: "string \<Rightarrow> string \<Rightarrow> string \<Rightarrow> hub" where
  "tcp_hub name host port =
     \<lparr>hub_name = Some name, hub_type = NETWORK, hub_host = host, hub_port = port,
      hub_timeout = None, hub_platforms = (\<lambda>conf_key. None)\<rparr>"

subsection \<open>First occurrence wins\<close>

text \<open>
  Notions for the proofs about the duplicate resolvers. All three loops walk a list with a
  state: an item is rejected by a test on the state, and an accepted item updates the state.
  \<open>keep\<close> is the list of the accepted items, \<open>rejected\<close> the list of the indices of the
  rejected ones, \<open>final\<close> the state after the loop and \<open>warnings\<close> what it logs.
\<close>

fun keep :: "('s \<Rightarrow> 'a \<Rightarrow> bool) \<Rightarrow> ('s \<Rightarrow> 'a \<Rightarrow> 's) \<Rightarrow> 's \<Rightarrow> 'a list \<Rightarrow> 'a list" where
  "keep rej upd s [] = []"
| "keep rej upd s (x # xs) =
     (if rej s x then keep rej upd s xs else x # keep rej upd (upd s x) xs)"

fun rejected :: "('s \<Rightarrow> 'a \<Rightarrow> bool) \<Rightarrow> ('s \<Rightarrow> 'a \<Rightarrow> 's) \<Rightarrow> 's \<Rightarrow> 'a list \<Rightarrow> nat list" where
  "rejected rej upd s [] = []"
| "rejected rej upd s (x # xs) =
     (if rej s x then 0 # map Suc (rejected rej upd s xs)
      else map Suc (rejected rej upd (upd s x) xs))"

fun final :: "('s \<Rightarrow> 'a \<Rightarrow> bool) \<Rightarrow> ('s \<Rightarrow> 'a \<Rightarrow> 's) \<Rightarrow> 's \<Rightarrow> 'a list \<Rightarrow> 's" where
  "final rej upd s [] = s"
| "final rej upd s (x # xs) = final rej upd (if rej s x then s else upd s x) xs"

fun warnings ::
  "('s \<Rightarrow> 'a \<Rightarrow> 'w) \<Rightarrow> ('s \<Rightarrow> 'a \<Rightarrow> bool) \<Rightarrow> ('s \<Rightarrow> 'a \<Rightarrow> 's) \<Rightarrow> 's \<Rightarrow> 'a list \<Rightarrow> 'w list" where
  "warnings warn rej upd s [] = []"
| "warnings warn rej upd s (x # xs) =
     (if rej s x then warn s x # warnings warn rej upd s xs
      else warnings warn rej upd (upd s x) xs)"

text \<open>The test, the update and the warning of the loop over hubs, on the state of hosts and names.\<close>

definition hub_rej :: "string \<Rightarrow> string set \<times> string set \<Rightarrow> hub \<Rightarrow> bool" where
  "hub_rej DEFAULT_HUB s hub = (host_of hub \<in> fst s \<or> name_of DEFAULT_HUB hub \<in> snd s)"

definition hub_upd :: "string \<Rightarrow> string set \<times> string set \<Rightarrow> hub \<Rightarrow> string set \<times> string set" where
  "hub_upd DEFAULT_HUB s hub = (insert (host_of hub) (fst s), insert (name_of DEFAULT_HUB hub) (snd s))"

definition hub_warn :: "string \<Rightarrow> string set \<times> string set \<Rightarrow> hub \<Rightarrow> warning" where
  "hub_warn DEFAULT_HUB s hub =
     (if host_of hub \<in> fst s then Duplicate_host (name_of DEFAULT_HUB hub) (host_of hub)
      else Duplicate_hub_name (name_of DEFAULT_HUB hub))"

text \<open>The same for the loop over entities, on the state of names and addresses.\<close>

definition entry_rej :: "string set \<times> string set \<Rightarrow> entry \<Rightarrow> bool" where
  "entry_rej s entry = (entry_addrs entry \<inter> snd s \<noteq> {} \<or> entry_name entry \<in> fst s)"

definition entry_upd :: "string set \<times> string set \<Rightarrow> entry \<Rightarrow> string set \<times> string set" where
  "entry_upd s entry = (insert (entry_name entry) (fst s), snd s \<union> entry_addrs entry)"

definition entry_warn :: "string \<Rightarrow> string set \<times> string set \<Rightarrow> entry \<Rightarrow> warning" where
  "entry_warn component s entry =
     (if entry_addrs entry \<inter> snd s \<noteq> {}
      then Duplicate_address component (entry_name entry) (entry_addrs entry \<inter> snd s)
      else Duplicate_entity_name component (entry_name entry))"

text \<open>The labels the loop over the fan mode values rejects, and what it logs, for the values seen.\<close>

fun fan_rejected :: "int set \<Rightarrow> (string \<times> int) list \<Rightarrow> string list" where
  "fan_rejected seen [] = []"
| "fan_rejected seen ((key, v) # items) =
     (if v \<in> seen then key # fan_rejected seen items else fan_rejected (insert v seen) items)"

fun fan_warnings :: "int set \<Rightarrow> (string \<times> int) list \<Rightarrow> warning list" where
  "fan_warnings seen [] = []"
| "fan_warnings seen ((key, v) # items) =
     (if v \<in> seen then Duplicate_fan_mode key v # fan_warnings seen items
      else fan_warnings (insert v seen) items)"

text \<open>An entity with a name, an address and a scan interval, and none of the other keys.\<close>

definition sensor :: "string \<Rightarrow> int \<Rightarrow> int option \<Rightarrow> entry" where
  "sensor name address scan_interval =
     \<lparr>entry_name = name, entry_address = address, entry_input_type = None,
      entry_write_type = None, entry_command_on = None, entry_command_off = None,
      entry_slave = None, entry_device_address = None, entry_target_temp = None,
      entry_hvac_mode_register = None, entry_fan_mode_register = None,
      entry_scan_interval = scan_interval\<rparr>"

text \<open>
  An entity on a slave, with or without a target temperature register.
\<close>

definition climate :: "string \<Rightarrow> int \<Rightarrow> int \<Rightarrow> int option \<Rightarrow> entry" where
  "climate name address slave target_temp =
     (sensor name address None)\<lparr>entry_slave := Some slave, entry_target_temp := target_temp\<rparr>"

subsection \<open>The specification's view of the timing\<close>

text \<open>
  After the words of the specification: the poll interval of an entity, with the default
  when it is unset; the entities a hub contains, those of the lists under the keys of the
  platforms; and the minimum interval of a hub, the least of the default and the intervals
  of its entities that are not 0.
\<close>

definition interval :: "int \<Rightarrow> entry \<Rightarrow> int" where
  "interval DEFAULT_SCAN_INTERVAL entry =
     (case entry_scan_interval entry of None \<Rightarrow> DEFAULT_SCAN_INTERVAL | Some v \<Rightarrow> v)"

definition contained :: "(string \<times> string) list \<Rightarrow> hub \<Rightarrow> entry list" where
  "contained PLATFORMS hub =
     concat (map (\<lambda>p. case hub_platforms hub (snd p) of None \<Rightarrow> [] | Some entries \<Rightarrow> entries)
               PLATFORMS)"

definition minInterval :: "int \<Rightarrow> (string \<times> string) list \<Rightarrow> hub \<Rightarrow> int" where
  "minInterval DEFAULT_SCAN_INTERVAL PLATFORMS hub =
     Min (insert DEFAULT_SCAN_INTERVAL
            {i \<in> interval DEFAULT_SCAN_INTERVAL ` set (contained PLATFORMS hub). i \<noteq> 0})"

text \<open>One round of the loop on the minimum, for the proofs.\<close>

definition step_min :: "int \<Rightarrow> int \<Rightarrow> int" where
  "step_min i m = (if i = 0 then m else min i m)"

text \<open>A serial hub with a timeout and a list of sensors.\<close>

definition serial_hub :: "int option \<Rightarrow> entry list \<Rightarrow> hub" where
  "serial_hub timeout entries =
     \<lparr>hub_name = None, hub_type = SERIAL, hub_host = [], hub_port = ''/dev/ttyUSB0'',
      hub_timeout = timeout,
      hub_platforms = (\<lambda>conf_key. if conf_key = ''sensors'' then Some entries else None)\<rparr>"

section \<open>Properties of the register validator\<close>

subsection \<open>Evaluation and case lemmas\<close>

lemmas table_simps = mk_ENTRY_def mk_PARM_IS_LEGAL_def
lemmas swap_consts = CONF_SWAP_BYTE_def CONF_SWAP_WORD_def CONF_SWAP_WORD_BYTE_def

lemma calcsize_2h: "calcsize ''>2h'' = Inr 4"
  by (simp add: calcsize_def whichtable_def is_space_def is_digit_def digit_val_def add_item_def getentry_def align_def PY_SSIZE_T_MAX_def overflow_def)

lemma register_count_wordCount: "register_count (DEFAULT_STRUCT_FORMAT d) = wordCount d"
  by (cases d) (simp_all add: table_simps)

lemma struct_id_formatTag: "struct_id (DEFAULT_STRUCT_FORMAT d) = formatTag d"
  by (cases d) (simp_all add: table_simps)

lemma check_entries_fields:
  "check_entries (conf_name config) (dataType config)
     [(conf_count config = None, parm_count (legalityOf config), Parm_count),
      (conf_structure config = None, parm_structure (legalityOf config), Parm_structure),
      (slaveCount config = None, parm_slave_count (legalityOf config), Parm_slave_count)] = None
   \<longleftrightarrow> \<not> fields_violated config"
  by (auto simp: check_entry_def fields_violated_def field_violation_def)

lemma check_entries_error:
  "check_entries n d es = Some e \<Longrightarrow> (\<exists>k. e = vol_Invalid (Missing n k d)) \<or> (\<exists>k. e = vol_Invalid (Illegal n k d))"
  by (induction n d es rule: check_entries.induct) (auto simp: check_entry_def split: if_splits option.splits)

lemma resolve_slave_count_update [simp]:
  "resolve_slave_count (config\<lparr>conf_data_type := x\<rparr>) = resolve_slave_count config"
  by (simp add: resolve_slave_count_def split: option.split)

lemma struct_validator_raises:
  assumes "legality_checks config = Some e"
  shows "struct_validator cs config = Inl e"
  using assms unfolding struct_validator_def legality_checks_def Let_def
  by (simp del: check_entries.simps split del: if_split split: option.split_asm)

lemma struct_validator_custom:
  assumes "legality_checks config = None" and "dataType config = CUSTOM"
  shows "struct_validator cs config =
     (case custom_structure cs (conf_name config) (conf_count config) (conf_structure config) of
        Some e \<Rightarrow> Inl e
      | None \<Rightarrow> Inr (config\<lparr>conf_data_type := Enum CUSTOM\<rparr>))"
  using assms unfolding struct_validator_def legality_checks_def Let_def dataType_def
  by (simp del: check_entries.simps split del: if_split split: option.split_asm option.split)

lemma struct_validator_default:
  assumes "legality_checks config = None" and "dataType config \<noteq> CUSTOM"
  shows "struct_validator cs config =
     Inr (config\<lparr>conf_data_type := Enum (dataType config),
            conf_count := (if dataType config \<noteq> STRING then Some (wordCount (dataType config)) else conf_count config),
            conf_structure := Some (default_structure (dataType config) (slaveCount config))\<rparr>)"
proof (cases "dataType config = STRING")
  case True
  with assms show ?thesis
    unfolding struct_validator_def legality_checks_def Let_def dataType_def slaveCount_def
    by (simp del: check_entries.simps split del: if_split split: option.split_asm)
next
  case False
  with assms show ?thesis
    unfolding struct_validator_def legality_checks_def Let_def dataType_def slaveCount_def
    by (simp add: register_count_wordCount del: check_entries.simps split del: if_split
        split: option.split_asm)
qed


lemma legality_checks_unfold:
  "legality_checks config =
     (case check_entries (conf_name config) (dataType config)
        [(conf_count config = None, parm_count (legalityOf config), Parm_count),
         (conf_structure config = None, parm_structure (legalityOf config), Parm_structure),
         (slaveCount config = None, parm_slave_count (legalityOf config), Parm_slave_count)] of
        Some e \<Rightarrow> Some e
      | None \<Rightarrow> check_swap (conf_name config) (dataType config) (legalityOf config) (conf_swap config))"
  unfolding legality_checks_def Let_def dataType_def legalityOf_def slaveCount_def
  by (rule refl)

lemma legality_checks_fields_violated:
  assumes "fields_violated config"
  shows "\<exists>k. legality_checks config = Some (vol_Invalid (Missing (conf_name config) k (dataType config)))
           \<or> legality_checks config = Some (vol_Invalid (Illegal (conf_name config) k (dataType config)))"
proof -
  from assms obtain e where e: "check_entries (conf_name config) (dataType config)
        [(conf_count config = None, parm_count (legalityOf config), Parm_count),
         (conf_structure config = None, parm_structure (legalityOf config), Parm_structure),
         (slaveCount config = None, parm_slave_count (legalityOf config), Parm_slave_count)] = Some e"
    using check_entries_fields [of config] by (metis option.exhaust)
  from check_entries_error [OF e] show ?thesis
    using e by (auto simp: legality_checks_unfold simp del: check_entries.simps)
qed

lemma legality_checks_fields_ok:
  assumes "\<not> fields_violated config"
  shows "legality_checks config =
           check_swap (conf_name config) (dataType config) (legalityOf config) (conf_swap config)"
  using assms check_entries_fields [of config]
  by (simp add: legality_checks_unfold del: check_entries.simps)

lemma check_swap_cases:
  "check_swap n d v sw =
     (case sw of
        None \<Rightarrow> None
      | Some s \<Rightarrow>
          if s = [] then None
          else if s = CONF_SWAP_BYTE then
            (if parm_swap_byte v = ILLEGAL then Some (vol_Invalid (Swap_illegal n s d)) else None)
          else if s = CONF_SWAP_WORD \<or> s = CONF_SWAP_WORD_BYTE then
            (if parm_swap_word v = ILLEGAL then Some (vol_Invalid (Swap_illegal n s d)) else None)
          else Some (KeyError s))"
  by (simp add: check_swap_def swap_type_validator_def split: option.split)

lemma swap_consts_nonempty:
  "CONF_SWAP_BYTE \<noteq> []" "CONF_SWAP_WORD \<noteq> []" "CONF_SWAP_WORD_BYTE \<noteq> []"
  "CONF_SWAP_WORD \<noteq> CONF_SWAP_BYTE" "CONF_SWAP_WORD_BYTE \<noteq> CONF_SWAP_BYTE"
  "CONF_SWAP_WORD_BYTE \<noteq> CONF_SWAP_WORD"
  by (simp_all add: swap_consts)

lemma check_swap_violated:
  "(\<exists>s. check_swap (conf_name config) (dataType config) (legalityOf config) (conf_swap config)
        = Some (vol_Invalid (Swap_illegal (conf_name config) s (dataType config))))
   \<longleftrightarrow> swap_violated config"
  by (auto simp: check_swap_cases swap_violated_def swap_consts_nonempty split: option.splits if_splits)

lemma check_swap_not_violated:
  assumes "\<not> swap_violated config"
  shows "check_swap (conf_name config) (dataType config) (legalityOf config) (conf_swap config) = None
       \<or> (\<exists>s. check_swap (conf_name config) (dataType config) (legalityOf config) (conf_swap config)
              = Some (KeyError s))"
  using assms
  by (auto simp: check_swap_cases swap_violated_def swap_consts_nonempty split: option.splits if_splits)

lemma custom_structure_not_legality:
  "custom_structure cs n c s = Some e \<Longrightarrow> \<not> is_legality_error (Inl e :: exn + config)"
  by (auto simp: custom_structure_def is_legality_error_def
      split: option.splits sum.splits calcsize_exn.splits if_splits)

lemma legality_error_iff:
  "is_legality_error (struct_validator cs config) \<longleftrightarrow> legality_violated config"
proof (cases "fields_violated config")
  case True
  from legality_checks_fields_violated [OF True] obtain k where
    "legality_checks config = Some (vol_Invalid (Missing (conf_name config) k (dataType config)))
      \<or> legality_checks config = Some (vol_Invalid (Illegal (conf_name config) k (dataType config)))"
    by blast
  then have "is_legality_error (struct_validator cs config)"
    by (auto simp: struct_validator_raises is_legality_error_def)
  with True show ?thesis by (simp add: legality_violated_def)
next
  case False
  note lc = legality_checks_fields_ok [OF False]
  show ?thesis
  proof (cases "swap_violated config")
    case True
    then obtain s where "legality_checks config =
        Some (vol_Invalid (Swap_illegal (conf_name config) s (dataType config)))"
      using check_swap_violated [of config] lc by auto
    then have "is_legality_error (struct_validator cs config)"
      by (simp add: struct_validator_raises is_legality_error_def)
    with True show ?thesis by (simp add: legality_violated_def)
  next
    case nsv: False
    from check_swap_not_violated [OF nsv] lc
    consider "legality_checks config = None" | s where "legality_checks config = Some (KeyError s)"
      by auto
    then have "\<not> is_legality_error (struct_validator cs config)"
    proof cases
      case 1
      show ?thesis
      proof (cases "dataType config = CUSTOM")
        case True
        show ?thesis
          using custom_structure_not_legality [of cs "conf_name config" "conf_count config" "conf_structure config"]
          by (auto simp: struct_validator_custom [OF 1 True] is_legality_error_def split: option.splits)
      next
        case False
        show ?thesis
          by (simp add: struct_validator_default [OF 1 False] is_legality_error_def)
      qed
    next
      case 2
      then show ?thesis by (simp add: struct_validator_raises is_legality_error_def)
    qed
    with False nsv show ?thesis by (simp add: legality_violated_def)
  qed
qed


lemmas decl_eval = decl_def dataType_def legalityOf_def slaveCount_def resolve_data_type_def
  resolve_slave_count_def table_simps

lemmas run_eval = struct_validator_def Let_def check_entry_def check_swap_def
  swap_type_validator_def swap_consts custom_structure_def default_structure_def
  str_int_def str_nat.simps digit_char_def

text \<open>
  Claim C1. A declaration whose data type is neither CUSTOM nor STRING and that passes
  validation is returned with its count set to the register count of the data type in the
  layout table, which is the word count the specification gives for the type (1 for the
  16-bit types, 2 for the 32-bit types, 4 for the 64-bit types), whatever count the caller
  supplied.
\<close>

theorem C1_count_is_wordCount:
  assumes "struct_validator cs config = Inr out"
    and "dataType config \<noteq> CUSTOM" and "dataType config \<noteq> STRING"
  shows "conf_count out = Some (register_count (DEFAULT_STRUCT_FORMAT (dataType config)))
       \<and> register_count (DEFAULT_STRUCT_FORMAT (dataType config)) = wordCount (dataType config)"
proof -
  have "legality_checks config = None"
  proof (cases "legality_checks config")
    case (Some e)
    with assms(1) show ?thesis by (simp add: struct_validator_raises)
  qed simp
  from struct_validator_default [OF this assms(2), of cs] assms(1,3)
  have "conf_count out = Some (wordCount (dataType config))" by auto
  then show ?thesis by (simp add: register_count_wordCount)
qed

text \<open>An INT32 declaration with a word swap comes back with the count 2.\<close>

theorem C1_count_is_wordCount_witness:
  "struct_validator calcsize (decl INT32 None None None (Some CONF_SWAP_WORD))
     = Inr ((decl INT32 (Some 2) (Some ''>i'') None (Some CONF_SWAP_WORD)))
   \<and> conf_count (decl INT32 (Some 2) (Some ''>i'') None (Some CONF_SWAP_WORD)) = Some 2"
proof -
  let ?c = "decl INT32 None None None (Some CONF_SWAP_WORD)"
  let ?out = "decl INT32 (Some 2) (Some ''>i'') None (Some CONF_SWAP_WORD)"
  have r: "struct_validator calcsize ?c = Inr ?out"
    by (simp add: run_eval decl_eval)
  have d: "dataType ?c \<noteq> CUSTOM" "dataType ?c \<noteq> STRING"
    by (simp_all add: decl_eval)
  from C1_count_is_wordCount [OF r d] have "conf_count ?out = Some 2"
    by (simp add: decl_eval)
  with r show ?thesis by (rule conjI)
qed

lemma legality_checks_succeeds:
  assumes "struct_validator cs config = Inr out"
  shows "legality_checks config = None"
proof (cases "legality_checks config")
  case (Some e)
  with assms show ?thesis by (simp add: struct_validator_raises)
qed simp






text \<open>
  Claim C3, amended. For every declaration, validation raises a legality error (a field
  missing though demanded, a field present though illegal, a swap mode illegal for the data
  type) exactly when the legality matrix is violated; for every declaration that is not
  CUSTOM this is exactly when it raises a configuration error at all. A structure on INT16,
  a STRING without count and the swap mode WORD on STRING raise a configuration error; the
  swap mode BYTE on INT32 passes.
\<close>

theorem C3_legality_error_iff:
  "(is_legality_error (struct_validator cs config) \<longleftrightarrow> legality_violated config)
   \<and> (dataType config \<noteq> CUSTOM \<longrightarrow>
        (is_config_error (struct_validator cs config) \<longleftrightarrow> legality_violated config))
   \<and> (dataType config = INT16 \<and> conf_structure config \<noteq> None \<longrightarrow>
        is_config_error (struct_validator cs config))
   \<and> (dataType config = STRING \<and> conf_count config = None \<longrightarrow>
        is_config_error (struct_validator cs config))
   \<and> (dataType config = STRING \<and> conf_swap config = Some CONF_SWAP_WORD \<longrightarrow>
        is_config_error (struct_validator cs config))
   \<and> succeeds (struct_validator cs (decl INT32 None None sc (Some CONF_SWAP_BYTE)))"
proof -
  have le: "is_legality_error r \<Longrightarrow> is_config_error r" for r :: "exn + config"
    by (auto simp: is_legality_error_def is_config_error_def
        split: sum.splits exn.splits message.splits)
  have viol: "legality_violated c \<Longrightarrow> is_config_error (struct_validator cs c)" for c
    using legality_error_iff [of cs c] le by blast
  have 2: "is_config_error (struct_validator cs config) \<longleftrightarrow> legality_violated config"
    if nc: "dataType config \<noteq> CUSTOM"
  proof
    assume ce: "is_config_error (struct_validator cs config)"
    show "legality_violated config"
    proof (rule ccontr)
      assume nv: "\<not> legality_violated config"
      then have "\<not> fields_violated config" "\<not> swap_violated config"
        by (simp_all add: legality_violated_def)
      from check_swap_not_violated [OF this(2)] legality_checks_fields_ok [OF this(1)]
      consider "legality_checks config = None" | s where "legality_checks config = Some (KeyError s)"
        by auto
      then show False
      proof cases
        case 1
        with ce nc show False
          by (simp add: struct_validator_default is_config_error_def)
      next
        case 2
        with ce show False
          by (simp add: struct_validator_raises is_config_error_def)
      qed
    qed
  qed (rule viol)
  have 3: "legality_violated config" if "dataType config = INT16" "conf_structure config \<noteq> None"
    using that
    by (auto simp: legality_violated_def fields_violated_def field_violation_def legalityOf_def
        table_simps)
  have 4: "legality_violated config" if "dataType config = STRING" "conf_count config = None"
    using that
    by (auto simp: legality_violated_def fields_violated_def field_violation_def legalityOf_def
        table_simps)
  have 5: "legality_violated config"
    if "dataType config = STRING" "conf_swap config = Some CONF_SWAP_WORD"
    using that
    by (auto simp: legality_violated_def swap_violated_def legalityOf_def table_simps)
  have 6: "succeeds (struct_validator cs (decl INT32 None None sc (Some CONF_SWAP_BYTE)))"
    by (simp add: run_eval decl_eval succeeds_def split: option.split)
  from legality_error_iff [of cs config] 2 3 4 5 6 viol show ?thesis by blast
qed

text \<open>
  An INT16 declaration with a structure violates the matrix and raises a legality error.
\<close>

theorem C3_legality_error_iff_witness:
  "legality_violated (decl INT16 None (Some ''>h'') None None)
   \<and> is_legality_error (struct_validator calcsize (decl INT16 None (Some ''>h'') None None))
   \<and> is_config_error (struct_validator calcsize (decl INT16 None (Some ''>h'') None None))"
proof -
  let ?c = "decl INT16 None (Some ''>h'') None None"
  have v: "legality_violated ?c"
    by (simp add: legality_violated_def fields_violated_def field_violation_def decl_eval)
  have d: "dataType ?c = INT16 \<and> conf_structure ?c \<noteq> None"
    by (simp add: decl_eval)
  from C3_legality_error_iff [of calcsize ?c] v d show ?thesis by blast
qed

text \<open>
  Claim C3 as stated fails: the CUSTOM declaration with count 3 and structure \<^verbatim>\<open>>2h\<close>
  satisfies the legality matrix and still raises a configuration error, the one of the size
  check.
\<close>

theorem C3_counterexample:
  "is_config_error (struct_validator calcsize (decl CUSTOM (Some 3) (Some ''>2h'') None None))
   \<and> \<not> legality_violated (decl CUSTOM (Some 3) (Some ''>2h'') None None)"
  by (simp add: run_eval decl_eval calcsize_2h is_config_error_def legality_violated_def
      fields_violated_def field_violation_def swap_violated_def)


text \<open>
  Claim C4, amended. A declaration that is not CUSTOM and passes validation is returned
  with the structure \<^verbatim>\<open>>\<close> followed by the format tag when the slave count is absent or
  zero, and \<^verbatim>\<open>>\<close> followed by the slave count plus one and the format tag when the slave
  count is present and not zero; INT16 with slave count 2 gives \<^verbatim>\<open>>3h\<close>.
\<close>

theorem C4_structure_string:
  assumes "struct_validator cs config = Inr out" and "dataType config \<noteq> CUSTOM"
  shows "conf_structure out =
           Some (case slaveCount config of
                   None \<Rightarrow> ''>'' @ formatTag (dataType config)
                 | Some n \<Rightarrow>
                     if n = 0 then ''>'' @ formatTag (dataType config)
                     else ''>'' @ str_int (n + 1) @ formatTag (dataType config))
       \<and> formatTag (dataType config) = struct_id (DEFAULT_STRUCT_FORMAT (dataType config))
       \<and> returned conf_structure (struct_validator cs (decl INT16 None None (Some 2) None))
           = Some (Some ''>3h'')"
proof -
  from struct_validator_default [OF legality_checks_succeeds [OF assms(1)] assms(2), of cs] assms(1)
  have "conf_structure out = Some (default_structure (dataType config) (slaveCount config))"
    by auto
  then have 1: "conf_structure out =
           Some (case slaveCount config of
                   None \<Rightarrow> ''>'' @ formatTag (dataType config)
                 | Some n \<Rightarrow>
                     if n = 0 then ''>'' @ formatTag (dataType config)
                     else ''>'' @ str_int (n + 1) @ formatTag (dataType config))"
    by (simp add: default_structure_def struct_id_formatTag split: option.split)
  have 2: "returned conf_structure (struct_validator cs (decl INT16 None None (Some 2) None))
           = Some (Some ''>3h'')"
    by (simp add: run_eval decl_eval returned_def)
  from 1 2 show ?thesis by (simp add: struct_id_formatTag)
qed

text \<open>
  A UINT32 declaration with slave count 11 is returned with the structure \<^verbatim>\<open>>12I\<close>.
\<close>

theorem C4_structure_string_witness:
  "struct_validator calcsize (decl UINT32 None None (Some 11) None)
     = Inr (decl UINT32 (Some 2) (Some ''>12I'') (Some 11) None)
   \<and> conf_structure (decl UINT32 (Some 2) (Some ''>12I'') (Some 11) None) = Some ''>12I''"
proof -
  let ?c = "decl UINT32 None None (Some 11) None"
  let ?out = "decl UINT32 (Some 2) (Some ''>12I'') (Some 11) None"
  have r: "struct_validator calcsize ?c = Inr ?out"
    by (simp add: run_eval decl_eval)
  have d: "dataType ?c \<noteq> CUSTOM" by (simp add: decl_eval)
  from C4_structure_string [OF r d] have "conf_structure ?out = Some ''>12I''"
    by (simp add: decl_eval str_int_def str_nat.simps digit_char_def)
  with r show ?thesis by (rule conjI)
qed

text \<open>
  Claim C4 as stated fails for a slave count that is present and zero: the structure
  returned is \<^verbatim>\<open>>h\<close>, without the repeat count 1.
\<close>

theorem C4_counterexample:
  "slaveCount (decl INT16 None None (Some 0) None) = Some 0
   \<and> returned conf_structure (struct_validator calcsize (decl INT16 None None (Some 0) None))
       = Some (Some ''>h'')
   \<and> ''>h'' \<noteq> ''>'' @ str_int (0 + 1) @ formatTag INT16"
  by (simp add: run_eval decl_eval returned_def)

text \<open>
  Claim C10, amended. For a declaration whose count, structure and slave count satisfy the
  legality matrix and whose swap value is a non-empty string other than the three mapped
  values, validation raises \<^verbatim>\<open>KeyError\<close> for that value.
\<close>

theorem C10_unmapped_swap_KeyError:
  assumes "\<not> fields_violated config" and "conf_swap config = Some s" and "s \<noteq> []"
    and "s \<noteq> CONF_SWAP_BYTE" and "s \<noteq> CONF_SWAP_WORD" and "s \<noteq> CONF_SWAP_WORD_BYTE"
  shows "struct_validator cs config = Inl (KeyError s)"
proof -
  have "legality_checks config = Some (KeyError s)"
    using assms by (simp add: legality_checks_fields_ok check_swap_cases)
  then show ?thesis by (rule struct_validator_raises)
qed

text \<open>
  An INT16 declaration with the swap value \<^verbatim>\<open>none\<close> raises \<^verbatim>\<open>KeyError\<close>.
\<close>

theorem C10_unmapped_swap_KeyError_witness:
  "\<not> fields_violated (decl INT16 None None None (Some ''none''))
   \<and> struct_validator calcsize (decl INT16 None None None (Some ''none'')) = Inl (KeyError ''none'')"
proof -
  let ?c = "decl INT16 None None None (Some ''none'')"
  have f: "\<not> fields_violated ?c"
    by (simp add: fields_violated_def field_violation_def decl_eval)
  have s: "conf_swap ?c = Some ''none''" by (simp add: decl_def)
  have "struct_validator calcsize ?c = Inl (KeyError ''none'')"
    by (rule C10_unmapped_swap_KeyError [OF f s]) (simp_all add: swap_consts)
  with f show ?thesis by (rule conjI)
qed

text \<open>
  Claim C10 as stated fails: with a structure on INT16 and the swap value \<^verbatim>\<open>none\<close>, the
  loop over the fields raises the configuration error for the illegal structure before
  the swap dictionary is read.
\<close>

theorem C10_counterexample:
  "conf_swap (decl INT16 None (Some ''>h'') None (Some ''none'')) = Some ''none''
   \<and> ''none'' \<noteq> [] \<and> ''none'' \<noteq> CONF_SWAP_BYTE \<and> ''none'' \<noteq> CONF_SWAP_WORD
   \<and> ''none'' \<noteq> CONF_SWAP_WORD_BYTE
   \<and> struct_validator calcsize (decl INT16 None (Some ''>h'') None (Some ''none''))
       = Inl (vol_Invalid (Illegal ''reg'' Parm_structure INT16))"
  by (simp add: run_eval decl_eval)

section \<open>Properties of the numeric coercers\<close>

lemmas parse_eval = int_str_def strip_def is_uspace_def split_sign_def skip_prefix_def
  digit_value_def float_str_def float_literal_def is_decimal_def is_exponent_def lower_def
  is_digit_def

lemma int_str_examples:
  "int_str 10 ''42'' = Some 42" "int_str 10 ''3.14'' = None" "int_str 10 ''abc'' = None"
  "int_str 10 ''0x7FFF'' = None" "int_str 16 ''0x7FFF'' = Some 32767"
  "int_str 10 ''100'' = Some 100" "int_str 10 ''zz'' = None" "int_str 16 ''zz'' = None"
  by (simp_all add: parse_eval)

lemma float_str_examples:
  "float_str float_val ''3.14'' = Some (float_val ''3.14'')" "float_str float_val ''abc'' = None"
  by (simp_all add: parse_eval)

text \<open>
  Claim C9. \<open>number_validator\<close> returns an integer or a float as it is; for a string it
  returns the integer conversion when that succeeds, else the float conversion when that
  succeeds, and it raises the invalid-number error exactly when both fail. \<open>nan_validator\<close>
  returns an integer as it is; for a string it returns the base 10 conversion when that
  succeeds, else the base 16 conversion, and raises the invalid-number error exactly when
  both fail. Neither raises anything else. With the model of Python's conversions,
  \<^verbatim>\<open>"42"\<close> gives the integer 42, \<^verbatim>\<open>"3.14"\<close> the float that \<^verbatim>\<open>3.14\<close> denotes, \<^verbatim>\<open>"abc"\<close>
  fails; \<^verbatim>\<open>"0x7FFF"\<close> gives 32767, \<^verbatim>\<open>"100"\<close> gives 100 and \<^verbatim>\<open>"zz"\<close> fails.
\<close>

theorem C9_coercers:
  "number_validator int_of float_of (Raw_int i) = Inr (PyInt i)
   \<and> number_validator int_of float_of (Raw_float f) = Inr (PyFloat f)
   \<and> number_validator int_of float_of (Raw_str s) =
       (case int_of s of
          Some n \<Rightarrow> Inr (PyInt n)
        | None \<Rightarrow> (case float_of s of
                     Some x \<Rightarrow> Inr (PyFloat x)
                   | None \<Rightarrow> Inl (vol_Invalid (Invalid_number s))))
   \<and> (is_config_error (number_validator int_of float_of v)
        \<longleftrightarrow> (\<exists>t. v = Raw_str t \<and> int_of t = None \<and> float_of t = None))
   \<and> (succeeds (number_validator int_of float_of v)
        \<or> is_config_error (number_validator int_of float_of v))
   \<and> number_validator (int_str 10) (float_str float_val) (Raw_str ''42'') = Inr (PyInt 42)
   \<and> number_validator (int_str 10) (float_str float_val) (Raw_str ''3.14'')
       = Inr (PyFloat (float_val ''3.14''))
   \<and> number_validator (int_str 10) (float_str float_val) (Raw_str ''abc'')
       = Inl (vol_Invalid (Invalid_number ''abc''))
   \<and> nan_validator int_of int16_of (Nan_int i) = Inr i
   \<and> nan_validator int_of int16_of (Nan_str s) =
       (case int_of s of
          Some n \<Rightarrow> Inr n
        | None \<Rightarrow> (case int16_of s of
                     Some n \<Rightarrow> Inr n
                   | None \<Rightarrow> Inl (vol_Invalid (Invalid_number s))))
   \<and> (is_config_error (nan_validator int_of int16_of w)
        \<longleftrightarrow> (\<exists>t. w = Nan_str t \<and> int_of t = None \<and> int16_of t = None))
   \<and> (succeeds (nan_validator int_of int16_of w)
        \<or> is_config_error (nan_validator int_of int16_of w))
   \<and> nan_validator (int_str 10) (int_str 16) (Nan_str ''0x7FFF'') = Inr 32767
   \<and> nan_validator (int_str 10) (int_str 16) (Nan_str ''100'') = Inr 100
   \<and> nan_validator (int_str 10) (int_str 16) (Nan_str ''zz'')
       = Inl (vol_Invalid (Invalid_number ''zz''))"
proof -
  have n: "is_config_error (number_validator int_of float_of v)
        \<longleftrightarrow> (\<exists>t. v = Raw_str t \<and> int_of t = None \<and> float_of t = None)"
    by (cases v) (auto simp: number_validator_def is_config_error_def split: option.splits)
  have n': "succeeds (number_validator int_of float_of v)
        \<or> is_config_error (number_validator int_of float_of v)"
    by (cases v) (auto simp: number_validator_def is_config_error_def succeeds_def
        split: option.splits)
  have m: "is_config_error (nan_validator int_of int16_of w)
        \<longleftrightarrow> (\<exists>t. w = Nan_str t \<and> int_of t = None \<and> int16_of t = None)"
    by (cases w) (auto simp: nan_validator_def is_config_error_def split: option.splits)
  have m': "succeeds (nan_validator int_of int16_of w)
        \<or> is_config_error (nan_validator int_of int16_of w)"
    by (cases w) (auto simp: nan_validator_def is_config_error_def succeeds_def
        split: option.splits)
  have ex: "number_validator (int_str 10) (float_str float_val) (Raw_str ''42'') = Inr (PyInt 42)"
    "number_validator (int_str 10) (float_str float_val) (Raw_str ''3.14'')
       = Inr (PyFloat (float_val ''3.14''))"
    "number_validator (int_str 10) (float_str float_val) (Raw_str ''abc'')
       = Inl (vol_Invalid (Invalid_number ''abc''))"
    by (simp_all add: number_validator_def int_str_examples float_str_examples)
  have ex': "nan_validator (int_str 10) (int_str 16) (Nan_str ''0x7FFF'') = Inr 32767"
    "nan_validator (int_str 10) (int_str 16) (Nan_str ''100'') = Inr 100"
    "nan_validator (int_str 10) (int_str 16) (Nan_str ''zz'')
       = Inl (vol_Invalid (Invalid_number ''zz''))"
    by (simp_all add: nan_validator_def int_str_examples)
  show ?thesis
    using n n' m m' ex ex' by (simp add: number_validator_def nan_validator_def)
qed

section \<open>Properties of the duplicate resolvers\<close>

subsection \<open>Deleting the rejected indices keeps the accepted items\<close>

lemma del_at_Cons_Suc: "del_at (Suc i) (x # xs) = x # del_at i xs"
  by (simp add: del_at_def)

lemma del_at_0: "del_at 0 (x # xs) = xs"
  by (simp add: del_at_def)

lemma del_indices_append: "del_indices (is @ js) xs = del_indices js (del_indices is xs)"
  by (induction "is" arbitrary: xs) simp_all

lemma del_indices_map_Suc: "del_indices (map Suc is) (x # xs) = x # del_indices is xs"
  by (induction "is" arbitrary: xs) (simp_all add: del_at_Cons_Suc)

lemma del_rejected: "del_indices (rev (rejected rej upd s xs)) xs = keep rej upd s xs"
  by (induction xs arbitrary: s)
    (simp_all add: rev_map del_indices_append del_indices_map_Suc del_at_0)

lemma rejected_in_range: "i \<in> set (rejected rej upd s xs) \<Longrightarrow> i < length xs"
  by (induction xs arbitrary: s i) (auto split: if_splits)

lemma rejected_increasing: "sorted_wrt (<) (rejected rej upd s xs)"
  by (induction xs arbitrary: s) (auto simp: sorted_wrt_map)

lemma keep_snoc:
  "keep rej upd s (xs @ [x]) = keep rej upd s xs @ (if rej (final rej upd s xs) x then [] else [x])"
  by (induction xs arbitrary: s) simp_all

lemma warnings_snoc:
  "warnings warn rej upd s (xs @ [x])
     = warnings warn rej upd s xs @ (if rej (final rej upd s xs) x then [warn (final rej upd s xs) x] else [])"
  by (induction xs arbitrary: s) simp_all

lemma keep_idem: "keep rej upd s (keep rej upd s xs) = keep rej upd s xs"
  by (induction xs arbitrary: s) simp_all

lemma rejected_keep: "rejected rej upd s (keep rej upd s xs) = []"
  by (induction xs arbitrary: s) simp_all

lemma warnings_keep: "warnings warn rej upd s (keep rej upd s xs) = []"
  by (induction xs arbitrary: s) simp_all

lemma final_keep: "final rej upd s (keep rej upd s xs) = final rej upd s xs"
  by (induction xs arbitrary: s) simp_all

lemma subseq_keep: "subseq (keep rej upd s xs) xs"
  by (induction xs arbitrary: s) (auto intro: subseq_Cons')

lemma hub_loop_eq:
  "hub_loop dh hubs i ((H, N, E), L) =
     ((fst (final (hub_rej dh) (hub_upd dh) (H, N) hubs),
       snd (final (hub_rej dh) (hub_upd dh) (H, N) hubs),
       E @ map ((+) i) (rejected (hub_rej dh) (hub_upd dh) (H, N) hubs)),
      L @ warnings (hub_warn dh) (hub_rej dh) (hub_upd dh) (H, N) hubs)"
proof (induction hubs arbitrary: i H N E L)
  case Nil
  then show ?case by simp
next
  case (Cons hub hubs)
  show ?case
    by (simp add: Cons.IH Let_def hub_rej_def hub_upd_def hub_warn_def comp_def)
qed

lemma entity_loop_eq:
  "entity_loop c es i ((N, E, A), L) =
     ((fst (final entry_rej entry_upd (N, A) es),
       E @ map ((+) i) (rejected entry_rej entry_upd (N, A) es),
       snd (final entry_rej entry_upd (N, A) es)),
      L @ warnings (entry_warn c) entry_rej entry_upd (N, A) es)"
proof (induction es arbitrary: i N E A L)
  case Nil
  then show ?case by simp
next
  case (Cons e es)
  show ?case
    by (simp add: Cons.IH Let_def entry_rej_def entry_upd_def entry_warn_def comp_def)
qed

lemma map_add_0: "map ((+) (0::nat)) xs = xs"
  by (induction xs) simp_all

lemma duplicate_modbus_validator_eq:
  "duplicate_modbus_validator dh config =
     (keep (hub_rej dh) (hub_upd dh) ({}, {}) config,
      warnings (hub_warn dh) (hub_rej dh) (hub_upd dh) ({}, {}) config)"
  by (simp add: duplicate_modbus_validator_def hub_loop_eq del_rejected map_add_0)

lemma dedupe_platform_eq:
  "dedupe_platform c es =
     (keep entry_rej entry_upd ({}, {}) es,
      warnings (entry_warn c) entry_rej entry_upd ({}, {}) es)"
  by (simp add: dedupe_platform_def entity_loop_eq del_rejected map_add_0)

subsection \<open>The state of a loop and the items it kept\<close>

lemma final_hub:
  "final (hub_rej dh) (hub_upd dh) (H, N) hubs =
     (H \<union> host_of ` set (keep (hub_rej dh) (hub_upd dh) (H, N) hubs),
      N \<union> name_of dh ` set (keep (hub_rej dh) (hub_upd dh) (H, N) hubs))"
  by (induction hubs arbitrary: H N) (auto simp: hub_rej_def hub_upd_def)

lemma final_entry:
  "final entry_rej entry_upd (N, A) es =
     (N \<union> entry_name ` set (keep entry_rej entry_upd (N, A) es),
      A \<union> \<Union> (entry_addrs ` set (keep entry_rej entry_upd (N, A) es)))"
  by (induction es arbitrary: N A) (auto simp: entry_rej_def entry_upd_def)

lemma keep_hub_distinct:
  "distinct (map host_of (keep (hub_rej dh) (hub_upd dh) (H, N) hubs))
   \<and> distinct (map (name_of dh) (keep (hub_rej dh) (hub_upd dh) (H, N) hubs))
   \<and> host_of ` set (keep (hub_rej dh) (hub_upd dh) (H, N) hubs) \<inter> H = {}
   \<and> name_of dh ` set (keep (hub_rej dh) (hub_upd dh) (H, N) hubs) \<inter> N = {}"
proof (induction hubs arbitrary: H N)
  case Nil
  then show ?case by simp
next
  case (Cons hub hubs)
  show ?case
  proof (cases "hub_rej dh (H, N) hub")
    case True
    then show ?thesis using Cons.IH [of H N] by simp
  next
    case False
    then show ?thesis
      using Cons.IH [of "insert (host_of hub) H" "insert (name_of dh hub) N"]
      by (auto simp: hub_rej_def hub_upd_def)
  qed
qed

subsection \<open>Hubs: first occurrence wins\<close>

lemma hub_rej_final:
  "hub_rej dh (final (hub_rej dh) (hub_upd dh) ({}, {}) hubs) hub \<longleftrightarrow>
     (\<exists>k \<in> set (keep (hub_rej dh) (hub_upd dh) ({}, {}) hubs).
        host_of k = host_of hub \<or> name_of dh k = name_of dh hub)"
  by (auto simp: final_hub hub_rej_def intro: rev_image_eqI)

lemma hub_warn_final:
  "hub_warn dh (final (hub_rej dh) (hub_upd dh) ({}, {}) hubs) hub =
     (if \<exists>k \<in> set (keep (hub_rej dh) (hub_upd dh) ({}, {}) hubs). host_of k = host_of hub
      then Duplicate_host (name_of dh hub) (host_of hub)
      else Duplicate_hub_name (name_of dh hub))"
  by (auto simp: final_hub hub_warn_def intro: rev_image_eqI)

text \<open>
  Claim C7. The connection key of a hub is its port when the connection is serial and host,
  underscore and port otherwise. A hub is kept exactly when no hub kept before it has the
  same connection key or the same name, and the hubs kept stay in their order: the result
  for a list with one more hub at its end is the result for the list, followed by that hub
  unless it collides with one of them. A hub that collides is logged once, with the
  duplicate host and port when its connection key collides, whether or not its name collides
  too, and with the duplicate name otherwise. No two of the hubs kept share a connection key
  or a name. Of two network hubs with the same host, different ports and different names
  both are kept; with the same host and port only the first is.
\<close>

theorem C7_dedupe_hubs:
  "host_of hub = (if hub_type hub = SERIAL then hub_port hub else hub_host hub @ ''_'' @ hub_port hub)
   \<and> duplicate_modbus_validator dh [] = ([], [])
   \<and> fst (duplicate_modbus_validator dh (hubs @ [hub])) =
       fst (duplicate_modbus_validator dh hubs)
       @ (if \<exists>k \<in> set (fst (duplicate_modbus_validator dh hubs)).
               host_of k = host_of hub \<or> name_of dh k = name_of dh hub
          then [] else [hub])
   \<and> snd (duplicate_modbus_validator dh (hubs @ [hub])) =
       snd (duplicate_modbus_validator dh hubs)
       @ (if \<exists>k \<in> set (fst (duplicate_modbus_validator dh hubs)). host_of k = host_of hub
          then [Duplicate_host (name_of dh hub) (host_of hub)]
          else if \<exists>k \<in> set (fst (duplicate_modbus_validator dh hubs)).
                    name_of dh k = name_of dh hub
          then [Duplicate_hub_name (name_of dh hub)]
          else [])
   \<and> subseq (fst (duplicate_modbus_validator dh hubs)) hubs
   \<and> distinct (map host_of (fst (duplicate_modbus_validator dh hubs)))
   \<and> distinct (map (name_of dh) (fst (duplicate_modbus_validator dh hubs)))
   \<and> (hub_type hubA \<noteq> SERIAL \<and> hub_type hubB \<noteq> SERIAL \<and> hub_host hubA = hub_host hubB
        \<and> hub_port hubA \<noteq> hub_port hubB \<and> name_of dh hubA \<noteq> name_of dh hubB
        \<longrightarrow> duplicate_modbus_validator dh [hubA, hubB] = ([hubA, hubB], []))
   \<and> (hub_type hubA \<noteq> SERIAL \<and> hub_type hubB \<noteq> SERIAL \<and> hub_host hubA = hub_host hubB
        \<and> hub_port hubA = hub_port hubB
        \<longrightarrow> duplicate_modbus_validator dh [hubA, hubB]
              = ([hubA], [Duplicate_host (name_of dh hubB) (host_of hubB)]))"
proof -
  let ?K = "keep (hub_rej dh) (hub_upd dh) ({}, {})"
  have 3: "fst (duplicate_modbus_validator dh (hubs @ [hub])) =
       fst (duplicate_modbus_validator dh hubs)
       @ (if \<exists>k \<in> set (fst (duplicate_modbus_validator dh hubs)).
               host_of k = host_of hub \<or> name_of dh k = name_of dh hub
          then [] else [hub])"
    by (simp add: duplicate_modbus_validator_eq keep_snoc hub_rej_final)
  have 4: "snd (duplicate_modbus_validator dh (hubs @ [hub])) =
       snd (duplicate_modbus_validator dh hubs)
       @ (if \<exists>k \<in> set (fst (duplicate_modbus_validator dh hubs)). host_of k = host_of hub
          then [Duplicate_host (name_of dh hub) (host_of hub)]
          else if \<exists>k \<in> set (fst (duplicate_modbus_validator dh hubs)).
                    name_of dh k = name_of dh hub
          then [Duplicate_hub_name (name_of dh hub)]
          else [])"
    by (auto simp: duplicate_modbus_validator_eq warnings_snoc hub_rej_final hub_warn_final)
  have 5: "subseq (fst (duplicate_modbus_validator dh hubs)) hubs"
    by (simp add: duplicate_modbus_validator_eq subseq_keep)
  have 6: "distinct (map host_of (fst (duplicate_modbus_validator dh hubs)))"
    "distinct (map (name_of dh) (fst (duplicate_modbus_validator dh hubs)))"
    using keep_hub_distinct [of dh "{}" "{}" hubs] by (simp_all add: duplicate_modbus_validator_eq)
  have 7: "duplicate_modbus_validator dh [hubA, hubB] = ([hubA, hubB], [])"
    if "hub_type hubA \<noteq> SERIAL \<and> hub_type hubB \<noteq> SERIAL \<and> hub_host hubA = hub_host hubB
        \<and> hub_port hubA \<noteq> hub_port hubB \<and> name_of dh hubA \<noteq> name_of dh hubB"
    using that
    by (auto simp: duplicate_modbus_validator_eq hub_rej_def hub_upd_def host_of_def)
  have 8: "duplicate_modbus_validator dh [hubA, hubB]
              = ([hubA], [Duplicate_host (name_of dh hubB) (host_of hubB)])"
    if "hub_type hubA \<noteq> SERIAL \<and> hub_type hubB \<noteq> SERIAL \<and> hub_host hubA = hub_host hubB
        \<and> hub_port hubA = hub_port hubB"
    using that
    by (auto simp: duplicate_modbus_validator_eq hub_rej_def hub_upd_def hub_warn_def host_of_def)
  show ?thesis
    using 3 4 5 6 7 8 by (simp add: host_of_def duplicate_modbus_validator_eq)
qed

text \<open>
  Two hubs on one host with the ports 502 and 503 are both kept; with the port 502 twice the
  second is dropped for its host and port.
\<close>

theorem C7_dedupe_hubs_witness:
  "duplicate_modbus_validator ''modbus_hub''
      [tcp_hub ''a'' ''10.0.0.1'' ''502'', tcp_hub ''b'' ''10.0.0.1'' ''503'']
     = ([tcp_hub ''a'' ''10.0.0.1'' ''502'', tcp_hub ''b'' ''10.0.0.1'' ''503''], [])
   \<and> duplicate_modbus_validator ''modbus_hub''
        [tcp_hub ''a'' ''10.0.0.1'' ''502'', tcp_hub ''b'' ''10.0.0.1'' ''502'']
     = ([tcp_hub ''a'' ''10.0.0.1'' ''502''], [Duplicate_host ''b'' ''10.0.0.1_502''])"
proof -
  let ?a = "tcp_hub ''a'' ''10.0.0.1'' ''502''"
  let ?b = "tcp_hub ''b'' ''10.0.0.1'' ''503''"
  let ?c = "tcp_hub ''b'' ''10.0.0.1'' ''502''"
  have ha: "hub_type ?a \<noteq> SERIAL \<and> hub_type ?b \<noteq> SERIAL \<and> hub_host ?a = hub_host ?b
        \<and> hub_port ?a \<noteq> hub_port ?b \<and> name_of ''modbus_hub'' ?a \<noteq> name_of ''modbus_hub'' ?b"
    by (simp add: tcp_hub_def name_of_def)
  have hb: "hub_type ?a \<noteq> SERIAL \<and> hub_type ?c \<noteq> SERIAL \<and> hub_host ?a = hub_host ?c
        \<and> hub_port ?a = hub_port ?c"
    by (simp add: tcp_hub_def)
  have n: "name_of ''modbus_hub'' ?c = ''b''" "host_of ?c = ''10.0.0.1_502''"
    by (simp_all add: tcp_hub_def name_of_def host_of_def)
  from C7_dedupe_hubs [where dh = "''modbus_hub''" and hubA = ?a and hubB = ?b] ha
  have 1: "duplicate_modbus_validator ''modbus_hub'' [?a, ?b] = ([?a, ?b], [])"
    by blast
  from C7_dedupe_hubs [where dh = "''modbus_hub''" and hubA = ?a and hubB = ?c] hb
  have 2: "duplicate_modbus_validator ''modbus_hub'' [?a, ?c]
     = ([?a], [Duplicate_host (name_of ''modbus_hub'' ?c) (host_of ?c)])"
    by blast
  from 1 2 show ?thesis unfolding n by (rule conjI)
qed

subsection \<open>Entities: first occurrence wins\<close>

lemma entry_rej_final:
  "entry_rej (final entry_rej entry_upd ({}, {}) es) e \<longleftrightarrow>
     (\<exists>k \<in> set (keep entry_rej entry_upd ({}, {}) es).
        entry_addrs k \<inter> entry_addrs e \<noteq> {} \<or> entry_name k = entry_name e)"
  by (auto simp: final_entry entry_rej_def intro: rev_image_eqI)

lemma entry_upd_pair: "entry_upd (N, A) e = (insert (entry_name e) N, A \<union> entry_addrs e)"
  by (simp add: entry_upd_def)

lemma keep_entry_fresh:
  "k \<in> set (keep entry_rej entry_upd (N, A) es) \<Longrightarrow> entry_addrs k \<inter> A = {} \<and> entry_name k \<notin> N"
proof (induction es arbitrary: N A)
  case Nil
  then show ?case by simp
next
  case (Cons e es)
  show ?case
  proof (cases "entry_rej (N, A) e")
    case True
    with Cons show ?thesis by simp
  next
    case False
    with Cons.prems consider "k = e"
      | "k \<in> set (keep entry_rej entry_upd (insert (entry_name e) N, A \<union> entry_addrs e) es)"
      by (auto simp: entry_upd_pair)
    then show ?thesis
    proof cases
      case 1
      with False show ?thesis by (simp add: entry_rej_def)
    next
      case 2
      from Cons.IH [OF 2] show ?thesis by auto
    qed
  qed
qed

lemma keep_entry_pairwise:
  assumes "i < j" and "j < length (keep entry_rej entry_upd (N, A) es)"
  shows "entry_addrs (keep entry_rej entry_upd (N, A) es ! i)
           \<inter> entry_addrs (keep entry_rej entry_upd (N, A) es ! j) = {}
       \<and> entry_name (keep entry_rej entry_upd (N, A) es ! i)
           \<noteq> entry_name (keep entry_rej entry_upd (N, A) es ! j)"
  using assms
proof (induction es arbitrary: N A i j)
  case Nil
  then show ?case by simp
next
  case (Cons e es)
  show ?case
  proof (cases "entry_rej (N, A) e")
    case True
    with Cons show ?thesis by simp
  next
    case False
    let ?K = "keep entry_rej entry_upd (insert (entry_name e) N, A \<union> entry_addrs e) es"
    have K: "keep entry_rej entry_upd (N, A) (e # es) = e # ?K"
      using False by (simp add: entry_upd_pair)
    from Cons.prems(2) have "j < length (e # ?K)" unfolding K .
    with Cons.prems(1) obtain j' where j': "j = Suc j'" "j' < length ?K"
      by (cases j) auto
    show ?thesis
    proof (cases i)
      case 0
      have "?K ! j' \<in> set ?K" using j' by simp
      from keep_entry_fresh [OF this] show ?thesis unfolding K 0 j' by auto
    next
      case (Suc i')
      with Cons.prems j' have "i' < j'" by simp
      from Cons.IH [OF this j'(2)] show ?thesis unfolding K Suc j' by simp
    qed
  qed
qed

subsection \<open>Running a resolver on its own result\<close>

lemma rejected_Nil_keep:
  "rejected rej upd s xs = [] \<Longrightarrow> keep rej upd s xs = xs \<and> warnings warn rej upd s xs = []"
  by (induction xs arbitrary: s) (auto split: if_splits)

lemma dedupe_platforms_hub:
  "fst (dedupe_platforms P hub log) =
     hub\<lparr>hub_platforms :=
           (\<lambda>k. if k \<in> snd ` set P
                then map_option (keep entry_rej entry_upd ({}, {})) (hub_platforms hub k)
                else hub_platforms hub k)\<rparr>"
proof (induction P arbitrary: hub log)
  case Nil
  then show ?case by simp
next
  case (Cons p P)
  obtain c k where p: "p = (c, k)" by (cases p)
  show ?case
  proof (cases "hub_platforms hub k")
    case None
    have "(\<lambda>k'. if k' \<in> snd ` set (p # P)
                then map_option (keep entry_rej entry_upd ({}, {})) (hub_platforms hub k')
                else hub_platforms hub k')
        = (\<lambda>k'. if k' \<in> snd ` set P
                then map_option (keep entry_rej entry_upd ({}, {})) (hub_platforms hub k')
                else hub_platforms hub k')"
      using None by (auto simp: p fun_eq_iff)
    then show ?thesis using None by (simp add: p Cons.IH)
  next
    case (Some es)
    let ?D = "keep entry_rej entry_upd ({}, {})"
    let ?hub = "hub\<lparr>hub_platforms := (hub_platforms hub)(k \<mapsto> ?D es)\<rparr>"
    have "(\<lambda>k'. if k' \<in> snd ` set P
                then map_option ?D (hub_platforms ?hub k')
                else hub_platforms ?hub k')
        = (\<lambda>k'. if k' \<in> snd ` set (p # P)
                then map_option ?D (hub_platforms hub k')
                else hub_platforms hub k')"
      using Some by (auto simp: p fun_eq_iff keep_idem)
    then show ?thesis using Some by (simp add: p Cons.IH dedupe_platform_eq)
  qed
qed

lemma dedupe_platforms_clean:
  assumes "\<And>k es. k \<in> snd ` set P \<Longrightarrow> hub_platforms hub k = Some es
             \<Longrightarrow> rejected entry_rej entry_upd ({}, {}) es = []"
  shows "dedupe_platforms P hub log = (hub, log)"
  using assms
proof (induction P arbitrary: hub log)
  case Nil
  then show ?case by simp
next
  case (Cons p P)
  obtain c k where p: "p = (c, k)" by (cases p)
  have IH: "dedupe_platforms P hub log = (hub, log)"
    by (rule Cons.IH) (rule Cons.prems, auto)
  show ?case
  proof (cases "hub_platforms hub k")
    case None
    then show ?thesis by (simp add: p IH)
  next
    case (Some es)
    have "rejected entry_rej entry_upd ({}, {}) es = []"
      by (rule Cons.prems [of k]) (simp_all add: p Some)
    from rejected_Nil_keep [OF this] have
      "dedupe_platform c es = (es, [])" by (simp add: dedupe_platform_eq)
    moreover have "(hub_platforms hub)(k \<mapsto> es) = hub_platforms hub"
      using Some by (simp add: map_upd_triv)
    ultimately show ?thesis using Some by (simp add: p IH)
  qed
qed

lemma duplicate_entity_validator_idem:
  "duplicate_entity_validator P (fst (duplicate_entity_validator P config))
     = (fst (duplicate_entity_validator P config), [])"
proof -
  let ?f = "\<lambda>hub. fst (dedupe_platforms P hub [])"
  have clean: "dedupe_platforms P (?f hub) [] = (?f hub, [])" for hub
    by (rule dedupe_platforms_clean)
      (auto simp: dedupe_platforms_hub rejected_keep split: if_splits)
  have "map (\<lambda>hub. dedupe_platforms P hub []) (map ?f config) = map (\<lambda>hub. (?f hub, [])) config"
    by (simp add: clean comp_def)
  then show ?thesis
    by (simp add: duplicate_entity_validator_def Let_def comp_def)
qed

lemma duplicate_modbus_validator_idem:
  "duplicate_modbus_validator dh (fst (duplicate_modbus_validator dh config))
     = (fst (duplicate_modbus_validator dh config), [])"
  by (simp add: duplicate_modbus_validator_eq keep_idem warnings_keep)

subsection \<open>Fan mode values\<close>

lemma fan_loop_eq:
  "fan_loop items ((S, E), L) =
     ((S \<union> snd ` set items, E @ fan_rejected S items), L @ fan_warnings S items)"
proof (induction items arbitrary: S E L)
  case Nil
  then show ?case by simp
next
  case (Cons item items)
  obtain k v where item: "item = (k, v)" by (cases item)
  show ?case by (auto simp: item Cons.IH)
qed

lemma fold_del_key: "fold del_key ks items = filter (\<lambda>item. fst item \<notin> set ks) items"
proof (induction ks arbitrary: items)
  case Nil
  then show ?case by simp
next
  case (Cons k ks)
  have "fold del_key (k # ks) items = fold del_key ks (del_key k items)" by simp
  also have "\<dots> = filter (\<lambda>item. fst item \<notin> set ks) (del_key k items)" by (rule Cons.IH)
  also have "\<dots> = filter (\<lambda>item. fst item \<notin> set (k # ks)) items"
    by (auto simp: del_key_def intro: filter_cong)
  finally show ?case .
qed

lemma duplicate_fan_mode_validator_eq:
  "duplicate_fan_mode_validator config =
     (config\<lparr>fan_mode_values :=
               filter (\<lambda>item. fst item \<notin> set (fan_rejected {} (fan_mode_values config)))
                 (fan_mode_values config)\<rparr>,
      fan_warnings {} (fan_mode_values config))"
  by (simp add: duplicate_fan_mode_validator_def fan_loop_eq fold_del_key)

lemma fan_survivors:
  assumes "set (fan_rejected S items) \<subseteq> E"
  shows "distinct (map snd (filter (\<lambda>item. fst item \<notin> E) items))
       \<and> snd ` set (filter (\<lambda>item. fst item \<notin> E) items) \<inter> S = {}"
  using assms
proof (induction items arbitrary: S)
  case Nil
  then show ?case by simp
next
  case (Cons item items)
  obtain k v where item: "item = (k, v)" by (cases item)
  show ?case
  proof (cases "v \<in> S")
    case True
    with Cons.prems have "k \<in> E" "set (fan_rejected S items) \<subseteq> E" by (auto simp: item)
    with Cons.IH [of S] show ?thesis by (simp add: item)
  next
    case False
    with Cons.prems have "set (fan_rejected (insert v S) items) \<subseteq> E" by (simp add: item)
    from Cons.IH [OF this] False show ?thesis by (auto simp: item)
  qed
qed

lemma fan_clean:
  assumes "distinct (map snd items)" and "snd ` set items \<inter> S = {}"
  shows "fan_rejected S items = [] \<and> fan_warnings S items = []"
  using assms
proof (induction items arbitrary: S)
  case Nil
  then show ?case by simp
next
  case (Cons item items)
  obtain k v where item: "item = (k, v)" by (cases item)
  from Cons.prems have "v \<notin> S" "distinct (map snd items)" "snd ` set items \<inter> insert v S = {}"
    by (auto simp: item)
  with Cons.IH [of "insert v S"] show ?case by (simp add: item)
qed

lemma duplicate_fan_mode_validator_idem:
  "duplicate_fan_mode_validator (fst (duplicate_fan_mode_validator config))
     = (fst (duplicate_fan_mode_validator config), [])"
proof -
  let ?R = "filter (\<lambda>item. fst item \<notin> set (fan_rejected {} (fan_mode_values config)))
                 (fan_mode_values config)"
  from fan_survivors [of "{}" "fan_mode_values config" "set (fan_rejected {} (fan_mode_values config))"]
  have "distinct (map snd ?R)" by simp
  from fan_clean [OF this, of "{}"] have "fan_rejected {} ?R = []" "fan_warnings {} ?R = []"
    by simp_all
  then show ?thesis by (simp add: duplicate_fan_mode_validator_eq)
qed

text \<open>
  Claim C8. Each of the three duplicate resolvers, run on its own result, returns that
  result unchanged and logs nothing: the resolver for entities (for every list of
  platforms), the resolver for hubs (for every default name) and the resolver for fan mode
  values.
\<close>

theorem C8_resolvers_idempotent:
  "duplicate_entity_validator P (fst (duplicate_entity_validator P config))
     = (fst (duplicate_entity_validator P config), [])
   \<and> duplicate_modbus_validator dh (fst (duplicate_modbus_validator dh hubs))
     = (fst (duplicate_modbus_validator dh hubs), [])
   \<and> duplicate_fan_mode_validator (fst (duplicate_fan_mode_validator fan))
     = (fst (duplicate_fan_mode_validator fan), [])"
  using duplicate_entity_validator_idem duplicate_modbus_validator_idem
    duplicate_fan_mode_validator_idem by blast

subsection \<open>Entities: the key sets of the survivors\<close>

lemma entity_loop_state:
  "fst (entity_loop c es 0 (({}, [], {}), [])) =
     (entry_name ` set (keep entry_rej entry_upd ({}, {}) es),
      rejected entry_rej entry_upd ({}, {}) es,
      \<Union> (entry_addrs ` set (keep entry_rej entry_upd ({}, {}) es)))"
  by (simp add: entity_loop_eq final_entry map_add_0)

lemmas entry_eval = sensor_def entry_addrs_def addr_def sub_addr_def inx_def str_int_def
  str_nat.simps digit_char_def

lemma climate_entry_addrs:
  "entry_addrs (climate ''a'' 1 3 (Some 5)) = {''1_3'', ''5_3''}"
  "entry_addrs (climate ''b'' 5 3 None) = {''5_3''}"
  "entry_addrs (climate ''c'' 5 4 None) = {''5_4''}"
  "entry_name (climate n x s t) = n"
  by (auto simp add: climate_def entry_eval)

lemma entry_addrs_suffix:
  assumes "a \<in> entry_addrs e"
  shows "\<exists>p. a = p @ ''_'' @ str_int (inx e)"
proof -
  have "\<exists>p. addr e = p @ ''_'' @ str_int (inx e)"
    unfolding addr_def by (metis append.assoc)
  with assms show ?thesis
    by (auto simp: entry_addrs_def sub_addr_def split: option.splits)
qed

text \<open>
  Claim C6. The device index of an entity is its slave, or when that is absent or 0 its
  device address, or when that is absent 0. The primary key is the address, then the input
  type or else the write type, the on command and the off command, each when present and
  after an underscore, then an underscore and the device index. The key set of an entity is
  its primary key together with one secondary key for each of the target temperature, HVAC
  mode and fan mode registers that is present: the register's address, an underscore and
  the device index. In the list of one platform an entity is kept exactly when its key set
  is disjoint from the key sets of the entities kept before it and its name is not the name
  of one of them, and the entities kept stay in their order: the result for a list with one
  more entity at its end is the result for the list, followed by that entity unless it
  collides. The names and addresses seen at the end of the loop are those of the entities
  kept, so a removed entity adds none. Any two of the entities kept have disjoint key sets
  and different names. The validator does this to the list of every platform of every hub
  and leaves the rest of the hub as it is.
\<close>

theorem C6_dedupe_entities:
  "inx e =
     (case entry_slave e of
        None \<Rightarrow> (case entry_device_address e of None \<Rightarrow> 0 | Some d \<Rightarrow> d)
      | Some v \<Rightarrow>
          if v = 0 then (case entry_device_address e of None \<Rightarrow> 0 | Some d \<Rightarrow> d) else v)
   \<and> addr e =
       str_int (entry_address e)
       @ (case entry_input_type e of
            Some t \<Rightarrow> ''_'' @ t
          | None \<Rightarrow> (case entry_write_type e of Some t \<Rightarrow> ''_'' @ t | None \<Rightarrow> []))
       @ (case entry_command_on e of Some v \<Rightarrow> ''_'' @ str_int v | None \<Rightarrow> [])
       @ (case entry_command_off e of Some v \<Rightarrow> ''_'' @ str_int v | None \<Rightarrow> [])
       @ ''_'' @ str_int (inx e)
   \<and> entry_addrs e =
       insert (addr e)
         ((\<lambda>r. str_int r @ ''_'' @ str_int (inx e))
            ` (set_option (entry_target_temp e) \<union> set_option (entry_hvac_mode_register e)
               \<union> set_option (entry_fan_mode_register e)))
   \<and> (\<forall>a \<in> entry_addrs e. \<exists>p. a = p @ ''_'' @ str_int (inx e))
   \<and> dedupe_platform c [] = ([], [])
   \<and> fst (dedupe_platform c (es @ [e])) =
       fst (dedupe_platform c es)
       @ (if \<exists>k \<in> set (fst (dedupe_platform c es)).
               entry_addrs k \<inter> entry_addrs e \<noteq> {} \<or> entry_name k = entry_name e
          then [] else [e])
   \<and> fst (fst (entity_loop c es 0 (({}, [], {}), [])))
       = entry_name ` set (fst (dedupe_platform c es))
   \<and> snd (snd (fst (entity_loop c es 0 (({}, [], {}), []))))
       = \<Union> (entry_addrs ` set (fst (dedupe_platform c es)))
   \<and> subseq (fst (dedupe_platform c es)) es
   \<and> (\<forall>i j. i < j \<and> j < length (fst (dedupe_platform c es)) \<longrightarrow>
         entry_addrs (fst (dedupe_platform c es) ! i)
           \<inter> entry_addrs (fst (dedupe_platform c es) ! j) = {}
         \<and> entry_name (fst (dedupe_platform c es) ! i)
           \<noteq> entry_name (fst (dedupe_platform c es) ! j))
   \<and> fst (duplicate_entity_validator P config) =
       map (\<lambda>hub. hub\<lparr>hub_platforms :=
                        (\<lambda>k. if k \<in> snd ` set P
                             then map_option (\<lambda>entries. fst (dedupe_platform c entries))
                                    (hub_platforms hub k)
                             else hub_platforms hub k)\<rparr>) config
   \<and> entry_addrs (climate ''a'' 1 3 (Some 5)) = {''1_3'', ''5_3''}
   \<and> fst (dedupe_platform c
         [climate ''a'' 1 3 (Some 5), climate ''b'' 5 3 None, climate ''c'' 5 4 None])
       = [climate ''a'' 1 3 (Some 5), climate ''c'' 5 4 None]"
proof -
  have i: "inx e =
     (case entry_slave e of
        None \<Rightarrow> (case entry_device_address e of None \<Rightarrow> 0 | Some d \<Rightarrow> d)
      | Some v \<Rightarrow>
          if v = 0 then (case entry_device_address e of None \<Rightarrow> 0 | Some d \<Rightarrow> d) else v)"
    by (simp add: inx_def split: option.splits)
  have p: "addr e =
       str_int (entry_address e)
       @ (case entry_input_type e of
            Some t \<Rightarrow> ''_'' @ t
          | None \<Rightarrow> (case entry_write_type e of Some t \<Rightarrow> ''_'' @ t | None \<Rightarrow> []))
       @ (case entry_command_on e of Some v \<Rightarrow> ''_'' @ str_int v | None \<Rightarrow> [])
       @ (case entry_command_off e of Some v \<Rightarrow> ''_'' @ str_int v | None \<Rightarrow> [])
       @ ''_'' @ str_int (inx e)"
    by (simp add: addr_def)
  have k: "entry_addrs e =
       insert (addr e)
         ((\<lambda>r. str_int r @ ''_'' @ str_int (inx e))
            ` (set_option (entry_target_temp e) \<union> set_option (entry_hvac_mode_register e)
               \<union> set_option (entry_fan_mode_register e)))"
    by (auto simp: entry_addrs_def sub_addr_def split: option.splits)
  have 2: "\<forall>a \<in> entry_addrs e. \<exists>p. a = p @ ''_'' @ str_int (inx e)"
    using entry_addrs_suffix by blast
  have 3: "dedupe_platform c [] = ([], [])"
    by (simp add: dedupe_platform_eq)
  have 4: "fst (dedupe_platform c (es @ [e])) =
       fst (dedupe_platform c es)
       @ (if \<exists>k \<in> set (fst (dedupe_platform c es)).
               entry_addrs k \<inter> entry_addrs e \<noteq> {} \<or> entry_name k = entry_name e
          then [] else [e])"
    by (simp add: dedupe_platform_eq keep_snoc entry_rej_final)
  have 5: "fst (fst (entity_loop c es 0 (({}, [], {}), [])))
       = entry_name ` set (fst (dedupe_platform c es))"
    by (simp add: entity_loop_state dedupe_platform_eq)
  have 6: "snd (snd (fst (entity_loop c es 0 (({}, [], {}), []))))
       = \<Union> (entry_addrs ` set (fst (dedupe_platform c es)))"
    by (simp add: entity_loop_state dedupe_platform_eq)
  have 7: "subseq (fst (dedupe_platform c es)) es"
    by (simp add: dedupe_platform_eq subseq_keep)
  have 8: "\<forall>i j. i < j \<and> j < length (fst (dedupe_platform c es)) \<longrightarrow>
         entry_addrs (fst (dedupe_platform c es) ! i)
           \<inter> entry_addrs (fst (dedupe_platform c es) ! j) = {}
         \<and> entry_name (fst (dedupe_platform c es) ! i)
           \<noteq> entry_name (fst (dedupe_platform c es) ! j)"
    using keep_entry_pairwise [of _ _ "{}" "{}" es] by (simp add: dedupe_platform_eq)
  have 9: "fst (duplicate_entity_validator P config) =
       map (\<lambda>hub. hub\<lparr>hub_platforms :=
                        (\<lambda>k. if k \<in> snd ` set P
                             then map_option (\<lambda>entries. fst (dedupe_platform c entries))
                                    (hub_platforms hub k)
                             else hub_platforms hub k)\<rparr>) config"
  proof -
    have D: "(\<lambda>entries. fst (dedupe_platform c entries)) = keep entry_rej entry_upd ({}, {})"
      by (simp add: dedupe_platform_eq fun_eq_iff)
    show ?thesis
      unfolding D
      by (simp add: duplicate_entity_validator_def Let_def comp_def dedupe_platforms_hub)
  qed
  have a: "entry_addrs (climate ''a'' 1 3 (Some 5)) = {''1_3'', ''5_3''}"
    by (auto simp add: climate_entry_addrs)
  have r: "fst (dedupe_platform c
         [climate ''a'' 1 3 (Some 5), climate ''b'' 5 3 None, climate ''c'' 5 4 None])
       = [climate ''a'' 1 3 (Some 5), climate ''c'' 5 4 None]"
    by (simp add: dedupe_platform_eq entry_rej_def entry_upd_def climate_entry_addrs)
  show ?thesis
    by (intro conjI) (fact i p k 2 3 4 5 6 7 8 9 a r)+
qed

text \<open>
  Of three entities, the first on slave 3 with address 1 and the target temperature
  register 5, the second on slave 3 with address 5, the third on slave 4 with address 5,
  the second is removed, since its primary key is the key of the first's target
  temperature register; the third has another device index and is kept. The two kept have
  disjoint key sets and different names.
\<close>

theorem C6_dedupe_entities_witness:
  "fst (dedupe_platform ''climate''
      [climate ''a'' 1 3 (Some 5), climate ''b'' 5 3 None, climate ''c'' 5 4 None])
     = [climate ''a'' 1 3 (Some 5), climate ''c'' 5 4 None]
   \<and> entry_addrs (climate ''a'' 1 3 (Some 5)) = {''1_3'', ''5_3''}
   \<and> entry_addrs (climate ''b'' 5 3 None) = {''5_3''}
   \<and> entry_addrs (climate ''c'' 5 4 None) = {''5_4''}
   \<and> entry_addrs (climate ''a'' 1 3 (Some 5)) \<inter> entry_addrs (climate ''c'' 5 4 None) = {}
   \<and> entry_name (climate ''a'' 1 3 (Some 5)) \<noteq> entry_name (climate ''c'' 5 4 None)"
proof -
  let ?es = "[climate ''a'' 1 3 (Some 5), climate ''b'' 5 3 None, climate ''c'' 5 4 None]"
  note T = C6_dedupe_entities [where c = "''climate''" and es = ?es and e = "climate ''c'' 5 4 None"
      and P = "[]" and config = "[]"]
  from T have r: "fst (dedupe_platform ''climate'' ?es)
      = [climate ''a'' 1 3 (Some 5), climate ''c'' 5 4 None]"
    by (elim conjE)
  from T have P: "\<forall>i j. i < j \<and> j < length (fst (dedupe_platform ''climate'' ?es)) \<longrightarrow>
         entry_addrs (fst (dedupe_platform ''climate'' ?es) ! i)
           \<inter> entry_addrs (fst (dedupe_platform ''climate'' ?es) ! j) = {}
         \<and> entry_name (fst (dedupe_platform ''climate'' ?es) ! i)
           \<noteq> entry_name (fst (dedupe_platform ''climate'' ?es) ! j)"
    by (elim conjE)
  have L: "(0::nat) < 1 \<and> 1 < length (fst (dedupe_platform ''climate'' ?es))"
    by (simp add: r)
  from P L
  have "entry_addrs (fst (dedupe_platform ''climate'' ?es) ! 0)
           \<inter> entry_addrs (fst (dedupe_platform ''climate'' ?es) ! 1) = {}
         \<and> entry_name (fst (dedupe_platform ''climate'' ?es) ! 0)
           \<noteq> entry_name (fst (dedupe_platform ''climate'' ?es) ! 1)"
    by blast
  then have "entry_addrs (climate ''a'' 1 3 (Some 5)) \<inter> entry_addrs (climate ''c'' 5 4 None) = {}
      \<and> entry_name (climate ''a'' 1 3 (Some 5)) \<noteq> entry_name (climate ''c'' 5 4 None)"
    by (simp add: r)
  with r climate_entry_addrs(1,2,3) show ?thesis by blast
qed

section \<open>Properties of the timing normalizer\<close>

lemma scan_entries_Cons:
  "scan_entries d c (e # es) (m, L) =
     (if interval d e = 0 then
        (case scan_entries d c es (m, L) of (es', r) \<Rightarrow> (e # es', r))
      else
        (case scan_entries d c es
                (min (interval d e) m,
                 if interval d e < 5 then L @ [Low_scan_interval c (entry_name e) (interval d e)]
                 else L) of
           (es', r) \<Rightarrow> (e\<lparr>entry_scan_interval := Some (interval d e)\<rparr> # es', r)))"
  by (simp add: interval_def Let_def)

lemma scan_entries_min:
  "fst (snd (scan_entries d c es (m, L))) = fold step_min (map (interval d) es) m"
proof (induction es arbitrary: m L)
  case Nil
  then show ?case by simp
next
  case (Cons e es)
  show ?case
  proof (cases "interval d e = 0")
    case True
    have "step_min (interval d e) m = m" using True by (simp add: step_min_def)
    then show ?thesis
      using Cons.IH [of m L] True
      by (simp add: scan_entries_Cons split_beta del: scan_entries.simps)
  next
    case False
    let ?L = "if interval d e < 5 then L @ [Low_scan_interval c (entry_name e) (interval d e)]
                 else L"
    have "step_min (interval d e) m = min (interval d e) m" using False by (simp add: step_min_def)
    then show ?thesis
      using Cons.IH [of "min (interval d e) m" ?L] False
      by (simp add: scan_entries_Cons split_beta del: scan_entries.simps)
  qed
qed

lemma interval_written: "interval d (e\<lparr>entry_scan_interval := Some (interval d e)\<rparr>) = interval d e"
  by (simp add: interval_def)

lemma scan_entries_intervals:
  "map (interval d) (fst (scan_entries d c es (m, L))) = map (interval d) es"
proof (induction es arbitrary: m L)
  case Nil
  then show ?case by simp
next
  case (Cons e es)
  let ?L = "if interval d e < 5 then L @ [Low_scan_interval c (entry_name e) (interval d e)]
                 else L"
  show ?case
    using Cons.IH [of m L] Cons.IH [of "min (interval d e) m" ?L]
    by (simp add: scan_entries_Cons interval_written split_beta del: scan_entries.simps)
qed

lemma Min_insert_min:
  assumes "finite S"
  shows "Min (insert (min x m) S) = Min (insert x (insert (m::int) S))"
proof (cases "S = {}")
  case True
  then show ?thesis by (simp add: min.commute)
next
  case False
  with assms show ?thesis by (simp add: min.assoc)
qed

lemma fold_step_min:
  "fold step_min xs m = Min (insert m {i \<in> set xs. i \<noteq> 0})"
proof (induction xs arbitrary: m)
  case Nil
  then show ?case by simp
next
  case (Cons x xs)
  show ?case
  proof (cases "x = 0")
    case True
    have "{i \<in> set (x # xs). i \<noteq> 0} = {i \<in> set xs. i \<noteq> 0}" using True by auto
    moreover have "step_min x m = m" using True by (simp add: step_min_def)
    ultimately show ?thesis by (simp add: Cons.IH)
  next
    case False
    have "{i \<in> set (x # xs). i \<noteq> 0} = insert x {i \<in> set xs. i \<noteq> 0}" using False by auto
    moreover have "step_min x m = min x m" using False by (simp add: step_min_def)
    ultimately show ?thesis by (simp add: Cons.IH Min_insert_min insert_commute)
  qed
qed

lemma contained_intervals_cong:
  assumes "\<And>k. map_option (map (interval d)) (hub_platforms hub' k)
              = map_option (map (interval d)) (hub_platforms hub k)"
  shows "map (interval d) (contained P hub') = map (interval d) (contained P hub)"
proof (induction P)
  case Nil
  then show ?case by (simp add: contained_def)
next
  case (Cons p P)
  from Cons have IH: "map (interval d) (contained P hub') = map (interval d) (contained P hub)" .
  have "map (interval d) (case hub_platforms hub' (snd p) of None \<Rightarrow> [] | Some es \<Rightarrow> es)
      = map (interval d) (case hub_platforms hub (snd p) of None \<Rightarrow> [] | Some es \<Rightarrow> es)"
    using assms [of "snd p"] by (auto split: option.splits)
  with IH show ?case by (simp add: contained_def)
qed

lemma scan_platforms_min:
  "fst (snd (scan_platforms d P hub (m, L))) = fold step_min (map (interval d) (contained P hub)) m
   \<and> hub_timeout (fst (scan_platforms d P hub (m, L))) = hub_timeout hub
   \<and> hub_name (fst (scan_platforms d P hub (m, L))) = hub_name hub"
proof (induction P arbitrary: hub m L)
  case Nil
  then show ?case by (simp add: contained_def)
next
  case (Cons p P)
  obtain c k where p: "p = (c, k)" by (cases p)
  show ?case
  proof (cases "hub_platforms hub k")
    case None
    then show ?thesis using Cons.IH [of hub m L] by (simp add: p contained_def)
  next
    case (Some es)
    obtain es' m' L' where r: "scan_entries d c es (m, L) = (es', m', L')"
      by (cases "scan_entries d c es (m, L)")
    let ?hub = "hub\<lparr>hub_platforms := (hub_platforms hub)(k \<mapsto> es')\<rparr>"
    have m': "m' = fold step_min (map (interval d) es) m"
      using scan_entries_min [of d c es m L] by (simp add: r)
    have es': "map (interval d) es' = map (interval d) es"
      using scan_entries_intervals [of d c es m L] by (simp add: r)
    have "map (interval d) (contained P ?hub) = map (interval d) (contained P hub)"
      by (rule contained_intervals_cong) (simp add: Some es')
    with Cons.IH [of ?hub m' L'] show ?thesis
      by (simp add: p Some r m' contained_def)
  qed
qed

lemma scan_hub_timeout:
  "hub_timeout (fst (scan_hub d P hub)) =
     (case hub_timeout hub of
        None \<Rightarrow> None
      | Some t \<Rightarrow>
          if 1 < minInterval d P hub \<and> minInterval d P hub - 1 < t
          then Some (minInterval d P hub - 1) else Some t)"
proof -
  obtain hub' m L where r: "scan_platforms d P hub (d, []) = (hub', m, L)"
    by (cases "scan_platforms d P hub (d, [])")
  from scan_platforms_min [of d P hub d "[]"] have
    m: "m = minInterval d P hub" and t: "hub_timeout hub' = hub_timeout hub"
    by (simp_all add: r fold_step_min minInterval_def)
  show ?thesis
    by (auto simp: scan_hub_def r m t split: option.splits)
qed

text \<open>
  Claim C5. For every list of hubs, the minimum interval of a hub is the least of
  \<^verbatim>\<open>DEFAULT_SCAN_INTERVAL\<close> and the poll intervals, other than 0, of the entities of its
  platforms, where an entity without a scan interval has the default. The validator sets the
  timeout of a hub to the minimum interval minus one exactly when the hub has a timeout,
  the minimum interval is greater than 1 and the timeout is greater than the minimum
  interval minus one, and leaves the timeout as it is otherwise. With a default of at least
  3, a hub whose entities have the intervals 0, 3 and 30 and whose timeout is 10 has the
  minimum interval 3 and ends with the timeout 2.
\<close>

theorem C5_timeout_clamped:
  "minInterval d P hub = Min (insert d {i \<in> interval d ` set (contained P hub). i \<noteq> 0})
   \<and> interval d e = (case entry_scan_interval e of None \<Rightarrow> d | Some v \<Rightarrow> v)
   \<and> map hub_timeout (fst (scan_interval_validator d P config)) =
       map (\<lambda>hub. case hub_timeout hub of
                    None \<Rightarrow> None
                  | Some t \<Rightarrow>
                      if 1 < minInterval d P hub \<and> minInterval d P hub - 1 < t
                      then Some (minInterval d P hub - 1) else Some t) config
   \<and> (3 \<le> d \<and> hub_timeout hub = Some 10 \<and> interval d ` set (contained P hub) = {0, 3, 30}
        \<longrightarrow> minInterval d P hub = 3
            \<and> map hub_timeout (fst (scan_interval_validator d P [hub])) = [Some 2])"
proof -
  have 3: "map hub_timeout (fst (scan_interval_validator d P config)) =
       map (\<lambda>hub. case hub_timeout hub of
                    None \<Rightarrow> None
                  | Some t \<Rightarrow>
                      if 1 < minInterval d P hub \<and> minInterval d P hub - 1 < t
                      then Some (minInterval d P hub - 1) else Some t) config" for config
    by (simp add: scan_interval_validator_def Let_def comp_def scan_hub_timeout)
  have 4: "minInterval d P hub = 3
            \<and> map hub_timeout (fst (scan_interval_validator d P [hub])) = [Some 2]"
    if h: "3 \<le> d \<and> hub_timeout hub = Some 10 \<and> interval d ` set (contained P hub) = {0, 3, 30}"
  proof -
    from h have "{i \<in> interval d ` set (contained P hub). i \<noteq> 0} = {3, 30}" by auto
    with h have m: "minInterval d P hub = 3" by (simp add: minInterval_def)
    with h show ?thesis by (simp add: 3)
  qed
  from 3 4 show ?thesis by (simp add: minInterval_def interval_def)
qed

text \<open>
  With the default 15, a serial hub with the timeout 10 and sensors polled every 0, 3 and 30
  seconds ends with the timeout 2.
\<close>

theorem C5_timeout_clamped_witness:
  "map hub_timeout
     (fst (scan_interval_validator 15 [(''sensor'', ''sensors'')]
        [serial_hub (Some 10)
           [sensor ''a'' 1 (Some 0), sensor ''b'' 2 (Some 3), sensor ''c'' 3 (Some 30)]]))
   = [Some 2]"
proof -
  let ?hub = "serial_hub (Some 10)
           [sensor ''a'' 1 (Some 0), sensor ''b'' 2 (Some 3), sensor ''c'' 3 (Some 30)]"
  let ?P = "[(''sensor'', ''sensors'')]"
  have "(3::int) \<le> 15 \<and> hub_timeout ?hub = Some 10
      \<and> interval 15 ` set (contained ?P ?hub) = {0, 3, 30}"
    by (simp add: serial_hub_def contained_def interval_def sensor_def)
  with C5_timeout_clamped [where d = 15 and P = ?P and hub = ?hub] show ?thesis
    by blast
qed

end
